theory Spec2Isabelle
  imports Complex_Main
begin

section \<open>The host batcher (host-batcher-smart.js)\<close>

text \<open>
  JavaScript numbers are modelled as reals, thread counts and millisecond delays as
  integers (they are results of \<open>Math.ceil\<close>, \<open>Math.floor\<close> and \<open>Math.round\<close>).
  \<open>Math.round\<close> rounds halves up, as \<^const>\<open>round\<close> does.
  A division by zero, which JavaScript answers with \<open>Infinity\<close> or \<open>NaN\<close>, is a
  result of its own (\<open>NonFinite\<close>), so that no theorem rests on the value HOL gives to
  \<open>x / 0\<close>.
\<close>

subsection \<open>Configuration read from the arguments\<close>

text \<open>The value of \<open>Number(ns.args[k])\<close>: a finite number, an infinity, or \<open>NaN\<close>
  (a missing or non-numeric argument).\<close>

datatype jsnum = NaN | NegInfinity | Num real | PosInfinity

text \<open>JavaScript truthiness of a number: \<open>NaN\<close> and zero are falsy.\<close>

fun truthy :: "jsnum \<Rightarrow> bool" where
  "truthy NaN = False"
| "truthy (Num x) = (x \<noteq> 0)"
| "truthy NegInfinity = True"
| "truthy PosInfinity = True"

text \<open>\<open>x || d\<close> for a finite default \<open>d\<close>.\<close>

definition orDefault :: "jsnum \<Rightarrow> real \<Rightarrow> jsnum" where
  "orDefault x d = (if truthy x then x else Num d)"

text \<open>\<open>Math.min(c, x)\<close> for a finite constant \<open>c\<close>.\<close>

fun mathMin :: "real \<Rightarrow> jsnum \<Rightarrow> jsnum" where
  "mathMin c NaN = NaN"
| "mathMin c NegInfinity = NegInfinity"
| "mathMin c (Num x) = Num (min c x)"
| "mathMin c PosInfinity = Num c"

text \<open>\<open>Math.min(0.25, Number(ns.args[1]) || 0.02)\<close>\<close>

definition BASE_HACK_PCT :: "jsnum \<Rightarrow> jsnum" where
  "BASE_HACK_PCT arg1 = mathMin (25/100) (orDefault arg1 (2/100))"

text \<open>\<open>Math.min(0.5, Number(ns.args[2]) || 0.20)\<close>\<close>

definition MAX_TOTAL_HACK_PCT :: "jsnum \<Rightarrow> jsnum" where
  "MAX_TOTAL_HACK_PCT arg2 = mathMin (5/10) (orDefault arg2 (20/100))"

fun isPositive :: "jsnum \<Rightarrow> bool" where
  "isPositive (Num x) = (0 < x)"
| "isPositive PosInfinity = True"
| "isPositive NaN = False"
| "isPositive NegInfinity = False"

text \<open>\<open>x <= c\<close> for a finite constant \<open>c\<close> (false for \<open>NaN\<close>).\<close>

fun atMost :: "jsnum \<Rightarrow> real \<Rightarrow> bool" where
  "atMost (Num x) c = (x \<le> c)"
| "atMost NegInfinity c = True"
| "atMost PosInfinity c = False"
| "atMost NaN c = False"

definition DELTA :: int where "DELTA = 250"
definition BUFFER :: int where "BUFFER = 1400"
definition MIN_FREE_RAM_RATIO :: real where "MIN_FREE_RAM_RATIO = 1/100"
definition SEC_INC_HACK :: real where "SEC_INC_HACK = 2/1000"
definition SEC_INC_GROW :: real where "SEC_INC_GROW = 4/1000"
definition SEC_DEC_WEAK :: real where "SEC_DEC_WEAK = 5/100"

subsection \<open>What one pass of the loop reads\<close>

text \<open>
  \<open>growthAnalyze\<close> is the game's function of the growth factor; \<open>None\<close> is a call that
  throws (the \<open>catch\<close> then uses the logarithm estimate).
  \<open>formulasHackPercent\<close> is \<open>None\<close> when \<open>ns.formulas.hacking.hackPercent\<close> is absent,
  \<open>Some None\<close> when the refinement throws, \<open>Some (Some fp)\<close> when it returns \<open>fp\<close>.
  \<open>nowAt b k\<close> is the reading of \<open>Date.now()\<close> made for stage \<open>k\<close> of batch \<open>b\<close>.
\<close>

record observation =
  serverExists :: bool
  hackTime :: real
  growTime :: real
  weakenTime :: real
  perHack :: real
  growthAnalyze :: "real \<Rightarrow> real option"
  formulasHackPercent :: "real option option"
  ramHack :: real
  ramGrow :: real
  ramWeaken :: real
  hostMaxRam :: real
  hostUsedRam :: real
  now :: int
  nowAt :: "nat \<Rightarrow> nat \<Rightarrow> int"

record plan =
  basePct :: real
  hackThreads :: int
  growThreads :: int
  weaken1Threads :: int
  weaken2Threads :: int
  ramPerBatch :: real
  concurrency :: int

datatype stop = TargetMissing | NonFinite

subsection \<open>Batch planner\<close>

definition hackThreadsFor :: "real \<Rightarrow> real \<Rightarrow> int" where
  "hackThreadsFor pct ph = max 1 \<lceil>pct / max (1 / 10^12) ph\<rceil>"

definition growThreadsFor :: "(real \<Rightarrow> real option) \<Rightarrow> int \<Rightarrow> real \<Rightarrow> int" where
  "growThreadsFor ga h ph =
     (let hackedFraction = min (999/1000) (real_of_int h * ph);
          growthFactor = 1 / max (1 / 10^9) (1 - hackedFraction)
      in case ga growthFactor of
           Some t \<Rightarrow> max 1 \<lceil>t\<rceil>
         | None \<Rightarrow> max 1 \<lceil>ln growthFactor / ln (1 + 3/100)\<rceil>)"

definition weakenThreadsFor :: "real \<Rightarrow> int" where
  "weakenThreadsFor secInc = max 1 \<lceil>secInc / SEC_DEC_WEAK\<rceil>"

definition batchRam :: "observation \<Rightarrow> int \<Rightarrow> int \<Rightarrow> int \<Rightarrow> int \<Rightarrow> real" where
  "batchRam ob h g w1 w2 =
     real_of_int h * ramHack ob + real_of_int g * ramGrow ob
       + real_of_int (w1 + w2) * ramWeaken ob"

definition freeRam :: "observation \<Rightarrow> real" where
  "freeRam ob =
     max 0 (hostMaxRam ob - hostUsedRam ob - max 0 (hostMaxRam ob * MIN_FREE_RAM_RATIO))"

text \<open>The per-thread yield after the optional refinement (lines 82 to 97).\<close>

definition refinedPerHack :: "observation \<Rightarrow> real" where
  "refinedPerHack ob =
     (case formulasHackPercent ob of
        Some (Some fp) \<Rightarrow> (if 0 < fp then fp else perHack ob)
      | _ \<Rightarrow> perHack ob)"

text \<open>
  Lines 60 to 114: the unscaled plan. The grow and weaken counts come from the
  first value of \<open>hackThreads\<close>; the refinement recomputes \<open>hackThreads\<close> only.
\<close>

definition initialPlan :: "real \<Rightarrow> observation \<Rightarrow> plan" where
  "initialPlan pct ob =
     (let h0 = hackThreadsFor pct (perHack ob);
          g = growThreadsFor (growthAnalyze ob) h0 (perHack ob);
          w1 = weakenThreadsFor (real_of_int h0 * SEC_INC_HACK);
          w2 = weakenThreadsFor (real_of_int g * SEC_INC_GROW);
          h = (case formulasHackPercent ob of
                 Some (Some fp) \<Rightarrow> hackThreadsFor pct (refinedPerHack ob)
               | _ \<Rightarrow> h0);
          r0 = batchRam ob h g w1 w2;
          r = (if r0 \<le> 0 then 1 else r0)
      in \<lparr> basePct = pct, hackThreads = h, growThreads = g, weaken1Threads = w1,
           weaken2Threads = w2, ramPerBatch = r,
           concurrency = max 1 \<lfloor>freeRam ob / r\<rfloor> \<rparr>)"

subsection \<open>Capacity packer\<close>

text \<open>\<open>Math.max(1, Math.floor(freeRam / ramPerBatch))\<close>\<close>

definition concurrencyFor :: "real \<Rightarrow> real \<Rightarrow> stop + int" where
  "concurrencyFor f r = (if r = 0 then Inl NonFinite else Inr (max 1 \<lfloor>f / r\<rfloor>))"

text \<open>
  The two lines that follow every change of the thread counts (136 and 137, 151 and 152):
  the cost of a batch and the concurrency that fits.
\<close>

definition repacked :: "observation \<Rightarrow> real \<Rightarrow> int \<Rightarrow> int \<Rightarrow> int \<Rightarrow> int \<Rightarrow> stop + plan" where
  "repacked ob pct h g w1 w2 =
     (case concurrencyFor (freeRam ob) (batchRam ob h g w1 w2) of
        Inl e \<Rightarrow> Inl e
      | Inr c \<Rightarrow> Inr \<lparr> basePct = pct, hackThreads = h, growThreads = g,
                      weaken1Threads = w1, weaken2Threads = w2,
                      ramPerBatch = batchRam ob h g w1 w2, concurrency = c \<rparr>)"

text \<open>Lines 117 to 139: the yield cap.\<close>

definition perBatchAllowed :: "real \<Rightarrow> int \<Rightarrow> real" where
  "perBatchAllowed cap c = max (1/1000) (cap / real_of_int c)"

definition capStep :: "real \<Rightarrow> observation \<Rightarrow> plan \<Rightarrow> stop + plan" where
  "capStep cap ob p =
     (if real_of_int (concurrency p) * basePct p > cap then
        (let pct = perBatchAllowed cap (concurrency p);
             h = hackThreadsFor pct (refinedPerHack ob);
             g = growThreadsFor (growthAnalyze ob) h (refinedPerHack ob);
             w1 = weakenThreadsFor (real_of_int h * SEC_INC_HACK);
             w2 = weakenThreadsFor (real_of_int g * SEC_INC_GROW)
         in repacked ob pct h g w1 w2)
      else Inr p)"

definition scaleRound :: "real \<Rightarrow> int \<Rightarrow> int" where
  "scaleRound scale v = max 1 \<lfloor>real_of_int v * scale\<rfloor>"

text \<open>Lines 142 to 153: the proportional down-scale.\<close>

definition scaleStep :: "observation \<Rightarrow> plan \<Rightarrow> stop + plan" where
  "scaleStep ob p =
     (if concurrency p \<le> 0 \<or> ramPerBatch p > freeRam ob then
        if ramPerBatch p = 0 then Inl NonFinite else
        (let scale = max (1/100) (freeRam ob / ramPerBatch p)
         in repacked ob (basePct p)
              (scaleRound scale (hackThreads p)) (scaleRound scale (growThreads p))
              (scaleRound scale (weaken1Threads p)) (scaleRound scale (weaken2Threads p)))
      else Inr p)"

text \<open>Line 156: the final clamp.\<close>

definition finalClamp :: "observation \<Rightarrow> plan \<Rightarrow> plan" where
  "finalClamp ob p =
     p\<lparr> concurrency :=
          max 1 (min (concurrency p) \<lfloor>max 1 (freeRam ob / max 1 (ramPerBatch p))\<rfloor>) \<rparr>"

text \<open>Planner and packer together: lines 48 to 156 of one pass.\<close>

definition packedPlan :: "real \<Rightarrow> real \<Rightarrow> observation \<Rightarrow> stop + plan" where
  "packedPlan cap pct ob =
     (if \<not> serverExists ob then Inl TargetMissing
      else case capStep cap ob (initialPlan pct ob) of
             Inl e \<Rightarrow> Inl e
           | Inr p1 \<Rightarrow> (case scaleStep ob p1 of
                          Inl e \<Rightarrow> Inl e
                        | Inr p2 \<Rightarrow> Inr (finalClamp ob p2)))"

subsection \<open>Stage-timing scheduler\<close>

datatype script = HackJs | WeakenJs | GrowJs

text \<open>One call \<open>ns.exec(script, host, threads, target, delay)\<close>.\<close>

record entry =
  script :: script
  threads :: int
  delay :: int

definition longest :: "observation \<Rightarrow> real" where
  "longest ob = max (max (hackTime ob) (growTime ob)) (weakenTime ob)"

definition baseT :: "observation \<Rightarrow> real" where
  "baseT ob = real_of_int (now ob) + longest ob + real_of_int BUFFER"

definition batchOffset :: "nat \<Rightarrow> int \<Rightarrow> int" where
  "batchOffset b c = round (real b / real_of_int (max 1 c) * real_of_int (DELTA * 4))"

definition batchT :: "observation \<Rightarrow> int \<Rightarrow> nat \<Rightarrow> real" where
  "batchT ob c b = baseT ob + real_of_int (batchOffset b c)"

definition hackStartDelay :: "observation \<Rightarrow> real \<Rightarrow> int \<Rightarrow> int" where
  "hackStartDelay ob T t = max 0 (round ((T - hackTime ob) - real_of_int t))"

definition weaken1StartDelay :: "observation \<Rightarrow> real \<Rightarrow> int \<Rightarrow> int" where
  "weaken1StartDelay ob T t =
     max 0 (round ((T + real_of_int DELTA - weakenTime ob) - real_of_int t))"

definition growStartDelay :: "observation \<Rightarrow> real \<Rightarrow> int \<Rightarrow> int" where
  "growStartDelay ob T t =
     max 0 (round ((T + real_of_int (2 * DELTA) - growTime ob) - real_of_int t))"

definition weaken2StartDelay :: "observation \<Rightarrow> real \<Rightarrow> int \<Rightarrow> int" where
  "weaken2StartDelay ob T t =
     max 0 (round ((T + real_of_int (3 * DELTA) - weakenTime ob) - real_of_int t))"

text \<open>The calls of one batch, in the order of the source; a stage with no thread is skipped.\<close>

definition batchEntries :: "observation \<Rightarrow> plan \<Rightarrow> nat \<Rightarrow> entry list" where
  "batchEntries ob p b =
     (let T = batchT ob (concurrency p) b
      in filter (\<lambda>e. threads e > 0)
           [ \<lparr> script = HackJs, threads = hackThreads p,
               delay = hackStartDelay ob T (nowAt ob b 0) \<rparr>,
             \<lparr> script = WeakenJs, threads = weaken1Threads p,
               delay = weaken1StartDelay ob T (nowAt ob b 1) \<rparr>,
             \<lparr> script = GrowJs, threads = growThreads p,
               delay = growStartDelay ob T (nowAt ob b 2) \<rparr>,
             \<lparr> script = WeakenJs, threads = weaken2Threads p,
               delay = weaken2StartDelay ob T (nowAt ob b 3) \<rparr> ])"

definition schedule :: "observation \<Rightarrow> plan \<Rightarrow> entry list" where
  "schedule ob p = concat (map (batchEntries ob p) [0 ..< nat (concurrency p)])"

subsection \<open>The loop\<close>

text \<open>
  One pass of \<open>while (true)\<close> from the value that \<open>BASE_HACK_PCT\<close> has when the pass
  begins: the plan (whose \<open>basePct\<close> is the value of the variable when the pass ends)
  and the calls made.
\<close>

definition cycle :: "real \<Rightarrow> real \<Rightarrow> observation \<Rightarrow> stop + (plan \<times> entry list)" where
  "cycle cap pct ob =
     (case packedPlan cap pct ob of
        Inl e \<Rightarrow> Inl e
      | Inr p \<Rightarrow> Inr (p, schedule ob p))"

text \<open>
  The value of \<open>BASE_HACK_PCT\<close> when a pass over an existing target ends. The variable
  is declared outside the loop; line 122 overwrites it when the check of line 118
  fires, before the counts are recomputed, whatever the rest of the pass does.
\<close>

definition leftPct :: "real \<Rightarrow> real \<Rightarrow> observation \<Rightarrow> real" where
  "leftPct cap pct ob =
     (let p = initialPlan pct ob
      in if real_of_int (concurrency p) * basePct p > cap
         then perBatchAllowed cap (concurrency p) else basePct p)"

text \<open>
  Successive passes, one per observation. The loop is left only when the target is
  missing (line 50); after any other pass, also one that divided by zero, the next
  pass starts from the value of \<open>BASE_HACK_PCT\<close> that the pass left.
\<close>

fun runCycles :: "real \<Rightarrow> real \<Rightarrow> observation list \<Rightarrow> (stop + (plan \<times> entry list)) list" where
  "runCycles cap pct [] = []"
| "runCycles cap pct (ob # obs) =
     (if \<not> serverExists ob then [Inl TargetMissing]
      else cycle cap pct ob # runCycles cap (leftPct cap pct ob) obs)"

text \<open>The value of \<open>BASE_HACK_PCT\<close> after the passes; \<open>None\<close> when the loop was left.\<close>

fun carried :: "real \<Rightarrow> real \<Rightarrow> observation list \<Rightarrow> real option" where
  "carried cap pct [] = Some pct"
| "carried cap pct (ob # obs) =
     (if \<not> serverExists ob then None else carried cap (leftPct cap pct ob) obs)"

subsection \<open>An invariant of the packer\<close>

text \<open>After each step the concurrency is the one computed from the current batch cost.\<close>

definition packed :: "observation \<Rightarrow> plan \<Rightarrow> bool" where
  "packed ob p \<longleftrightarrow> ramPerBatch p \<noteq> 0 \<and> concurrency p = max 1 \<lfloor>freeRam ob / ramPerBatch p\<rfloor>"

subsection \<open>A concrete host and target\<close>

text \<open>
  The script costs are the game's (1.7 GB for \<open>hack.js\<close>, 1.75 GB for the other two);
  \<open>growthAnalyze\<close> is linear in the growth factor, which is what the game's logarithm
  is for the factors near 1 that occur here. The parameters are the per-thread yield
  and the host's total and used RAM.
\<close>

definition linearGrowth :: "real \<Rightarrow> real option" where
  "linearGrowth f = Some ((f - 1) * 20)"

definition exampleHost :: "real \<Rightarrow> real \<Rightarrow> real \<Rightarrow> observation" where
  "exampleHost ph maxRam usedRam =
     \<lparr> serverExists = True, hackTime = 4001/4, growTime = 3200, weakenTime = 4000,
       perHack = ph, growthAnalyze = linearGrowth, formulasHackPercent = None,
       ramHack = 17/10, ramGrow = 7/4, ramWeaken = 7/4,
       hostMaxRam = maxRam, hostUsedRam = usedRam,
       now = 1700000000000, nowAt = (\<lambda>b k. 1700000000000) \<rparr>"

subsection \<open>Notions used in the statements about the batcher\<close>

text \<open>Every stage of the plan has at least one thread.\<close>

definition threadsOk :: "plan \<Rightarrow> bool" where
  "threadsOk p \<longleftrightarrow> 1 \<le> hackThreads p \<and> 1 \<le> growThreads p
     \<and> 1 \<le> weaken1Threads p \<and> 1 \<le> weaken2Threads p"

text \<open>
  The script costs reported by \<open>ns.getScriptRam\<close> are not negative and not all zero
  (the cost is zero for a script that is missing on the host).
\<close>

definition costsOk :: "observation \<Rightarrow> bool" where
  "costsOk ob \<longleftrightarrow> 0 \<le> ramHack ob \<and> 0 \<le> ramGrow ob \<and> 0 \<le> ramWeaken ob
     \<and> 0 < ramHack ob + ramGrow ob + ramWeaken ob"

text \<open>The recorded cost of a batch is the cost of its thread counts.\<close>

definition costed :: "observation \<Rightarrow> plan \<Rightarrow> bool" where
  "costed ob p \<longleftrightarrow> ramPerBatch p =
     batchRam ob (hackThreads p) (growThreads p) (weaken1Threads p) (weaken2Threads p)"

text \<open>
  The instant at which a stage completes when every reading of the clock in the pass
  is \<open>now\<close>: the stage starts \<open>delay\<close> after \<open>now\<close> and runs for its duration.
\<close>

definition hackCompletion :: "observation \<Rightarrow> int \<Rightarrow> nat \<Rightarrow> real" where
  "hackCompletion ob c b =
     real_of_int (now ob + hackStartDelay ob (batchT ob c b) (now ob)) + hackTime ob"

definition weaken1Completion :: "observation \<Rightarrow> int \<Rightarrow> nat \<Rightarrow> real" where
  "weaken1Completion ob c b =
     real_of_int (now ob + weaken1StartDelay ob (batchT ob c b) (now ob)) + weakenTime ob"

definition growCompletion :: "observation \<Rightarrow> int \<Rightarrow> nat \<Rightarrow> real" where
  "growCompletion ob c b =
     real_of_int (now ob + growStartDelay ob (batchT ob c b) (now ob)) + growTime ob"

definition weaken2Completion :: "observation \<Rightarrow> int \<Rightarrow> nat \<Rightarrow> real" where
  "weaken2Completion ob c b =
     real_of_int (now ob + weaken2StartDelay ob (batchT ob c b) (now ob)) + weakenTime ob"

text \<open>The lead of a stage that lasts \<open>d\<close> and is to complete \<open>k\<close> gaps after \<open>T\<close>.\<close>

definition lead :: "observation \<Rightarrow> int \<Rightarrow> nat \<Rightarrow> int \<Rightarrow> real \<Rightarrow> real" where
  "lead ob c b k d = longest ob - d + real_of_int (BUFFER + batchOffset b c + k * DELTA)"

text \<open>
  Two observations of identical target parameters (with the script costs) and
  identical host free capacity; the clock and the host's total and used capacity may
  differ.
\<close>

definition sameState :: "observation \<Rightarrow> observation \<Rightarrow> bool" where
  "sameState ob ob' \<longleftrightarrow>
     serverExists ob = serverExists ob' \<and> hackTime ob = hackTime ob'
     \<and> growTime ob = growTime ob' \<and> weakenTime ob = weakenTime ob'
     \<and> perHack ob = perHack ob' \<and> growthAnalyze ob = growthAnalyze ob'
     \<and> formulasHackPercent ob = formulasHackPercent ob'
     \<and> ramHack ob = ramHack ob' \<and> ramGrow ob = ramGrow ob' \<and> ramWeaken ob = ramWeaken ob'
     \<and> freeRam ob = freeRam ob'"

text \<open>
  The readings of \<open>Date.now()\<close> made for the delays are equally late after the reading
  of line 159 in both passes.
\<close>

definition sameLag :: "observation \<Rightarrow> observation \<Rightarrow> bool" where
  "sameLag ob ob' \<longleftrightarrow> (\<forall>b k. nowAt ob b k - now ob = nowAt ob' b k - now ob')"

text \<open>
  The host of 1024 GB seen a second time: twice the total capacity with as much of it
  in use as leaves the same free capacity, at another time.
\<close>

definition laterHost :: observation where
  "laterHost = (exampleHost (3/1000) 2048 (25344/25))
     \<lparr> now := 1700000005000, nowAt := (\<lambda>b k. 1700000005000) \<rparr>"

text \<open>The same pass when the clock is one millisecond on at the time the delays are computed.\<close>

definition laggedHost :: observation where
  "laggedHost = (exampleHost (3/1000) 1024 0) \<lparr> nowAt := (\<lambda>b k. 1700000000001) \<rparr>"

text \<open>
  The same host while the three scripts are not on it: \<open>ns.getScriptRam\<close> answers 0
  for a file that does not exist.
\<close>

definition missingScripts :: observation where
  "missingScripts = (exampleHost (3/1000) 1024 0)
     \<lparr> ramHack := 0, ramGrow := 0, ramWeaken := 0 \<rparr>"

text \<open>The concrete host with a hack time of a whole number of milliseconds.\<close>

definition wholeMsHost :: observation where
  "wholeMsHost = (exampleHost (3/1000) 1024 0)\<lparr> hackTime := 1000 \<rparr>"

text \<open>
  The target and host of the example in the specification: per-thread yield 0.01, each
  script costing 10 units, so that the unscaled batch costs 50, and 2000 units free.
\<close>

definition specExample :: observation where
  "specExample =
     \<lparr> serverExists = True, hackTime = 1000, growTime = 3200, weakenTime = 4000,
       perHack = 1/100, growthAnalyze = linearGrowth, formulasHackPercent = None,
       ramHack = 10, ramGrow = 10, ramWeaken = 10,
       hostMaxRam = 4000, hostUsedRam = 1960,
       now = 1700000000000, nowAt = (\<lambda>b k. 1700000000000) \<rparr>"

section \<open>The multi-thread worker (worker.js)\<close>

text \<open>
  What one pass of the worker's loop reads: the target's state, the thread count of
  this script found by \<open>getWorkerThreads\<close>, and the value of \<open>Math.random()\<close> that
  decides whether this thread hacks.
\<close>

record workerObservation =
  targetExists :: bool
  minSec :: real
  sec :: real
  maxMoney :: real
  money :: real
  perThreadSteal :: real
  hackChance :: real
  workerThreads :: int
  roll :: real

datatype action = Weaken | Grow | Hack | Sleep

text \<open>The action of one pass; \<open>None\<close> is the exit taken when the target is missing.\<close>

definition workerAction :: "workerObservation \<Rightarrow> action option" where
  "workerAction w =
     (if \<not> targetExists w then None
      else if sec w > minSec w + 2 then Some Weaken
      else if money w < maxMoney w * (85/100) then Some Grow
      else if perThreadSteal w \<le> 0 \<or> hackChance w \<le> 0 then Some Weaken
      else if hackChance w < 20/100 then Some Weaken
      else if money w < maxMoney w * (90/100) then Some Grow
      else
        (let threadsRunning = max 1 (workerThreads w);
             desiredTotalHackThreads = max 1 \<lceil>(2/100) / perThreadSteal w\<rceil>;
             hackProb0 = min 1 (real_of_int desiredTotalHackThreads / real_of_int threadsRunning);
             hackProb = (if threadsRunning > 200 then hackProb0 * (9/10) else hackProb0)
         in if roll w < hackProb then Some Hack
            else if money w < maxMoney w * (97/100) then Some Grow
            else if sec w > minSec w + 1/2 then Some Weaken
            else Some Sleep))"

text \<open>A target at minimum security and full money whose per-thread yield is zero.\<close>

definition degenerateTarget :: workerObservation where
  "degenerateTarget =
     \<lparr> targetExists = True, minSec = 5, sec = 5, maxMoney = 1000000, money = 1000000,
       perThreadSteal = 0, hackChance = 8/10, workerThreads = 4, roll = 1/2 \<rparr>"

section \<open>The controller (controller-smart.js)\<close>

subsection \<open>Assignment of a target to a server\<close>

text \<open>\<open>{ primary: string|null, secondaries: [..] }\<close>\<close>

record strategy =
  primary :: "string option"
  secondaries :: "string list"









subsection \<open>The game state the selection reads and changes\<close>

text \<open>
  The state of one server as the NS interface shows it. The port openers and
  \<open>ns.nuke\<close> are the game's: an opener opens its port, and \<open>nuke\<close> gives root access
  when enough ports are open and throws otherwise.
\<close>

record server =
  serverMaxMoney :: real
  requiredHackingLevel :: real
  hackAnalyzeChance :: real
  hasRootAccess :: bool
  numOpenPortsRequired :: nat
  sshPortOpen :: bool
  ftpPortOpen :: bool
  smtpPortOpen :: bool
  httpPortOpen :: bool
  sqlPortOpen :: bool

text \<open>
  \<open>network\<close> is what \<open>ns.scan\<close> answers for each host; the five flags are the answers
  of \<open>ns.fileExists\<close> for the five programs.
\<close>

record world =
  network :: "(string \<times> string list) list"
  server :: "string \<Rightarrow> server"
  hackingLevel :: real
  hasBruteSSH :: bool
  hasFTPCrack :: bool
  hasRelaySMTP :: bool
  hasHTTPWorm :: bool
  hasSQLInject :: bool

definition scan :: "world \<Rightarrow> string \<Rightarrow> string list" where
  "scan w h = (case map_of (network w) h of Some ns \<Rightarrow> ns | None \<Rightarrow> [])"

text \<open>The inner \<open>for\<close> of \<open>scanAll\<close>: \<open>seen\<close> in insertion order, the stack with its top first.\<close>

fun visit :: "string list \<Rightarrow> string list \<Rightarrow> string list \<Rightarrow> string list \<times> string list" where
  "visit [] seen stack = (seen, stack)"
| "visit (n # ns) seen stack =
     (if n \<in> set seen then visit ns seen stack else visit ns (seen @ [n]) (n # stack))"

definition names :: "world \<Rightarrow> string set" where
  "names w = set (concat (map snd (network w)))"

function scanLoop :: "world \<Rightarrow> string list \<Rightarrow> string list \<Rightarrow> string list" where
  "scanLoop w seen [] = seen"
| "scanLoop w seen (h # stack) =
     scanLoop w (fst (visit (scan w h) seen stack)) (snd (visit (scan w h) seen stack))"
  by pat_completeness auto
termination
proof (relation "measures [\<lambda>(w, seen, stack). card (names w - set seen),
                           \<lambda>(w, seen, stack). length stack]")
  show "wf (measures [\<lambda>(w, seen, stack). card (names w - set seen),
                      \<lambda>(w, seen, stack). length stack])" by simp
next
  fix w :: world and seen stack :: "string list" and h :: string
  let ?v = "visit (scan w h) seen stack"
  have grows: "set (fst (visit ns sn st)) = set sn \<union> set ns" for ns sn st
    by (induction ns sn st rule: visit.induct) auto
  have unchanged: "visit ns sn st = (sn, st)" if "set ns \<subseteq> set sn" for ns sn st
    using that by (induction ns sn st rule: visit.induct) auto
  have known: "set (scan w h) \<subseteq> names w"
  proof (cases "map_of (network w) h")
    case None
    then show ?thesis by (simp add: scan_def)
  next
    case (Some ns)
    then have "(h, ns) \<in> set (network w)" by (rule map_of_SomeD)
    then have "set ns \<subseteq> names w" by (force simp: names_def)
    with Some show ?thesis by (simp add: scan_def)
  qed
  show "((w, fst ?v, snd ?v), (w, seen, h # stack))
      \<in> measures [\<lambda>(w, seen, stack). card (names w - set seen),
                   \<lambda>(w, seen, stack). length stack]"
  proof (cases "set (scan w h) \<subseteq> set seen")
    case True
    then have "visit (scan w h) seen stack = (seen, stack)" by (simp add: unchanged)
    then show ?thesis by simp
  next
    case False
    have fin: "finite (names w - set seen)" by (simp add: names_def)
    have "names w - set (fst ?v) \<subset> names w - set seen"
      using False known by (auto simp: grows)
    then have "card (names w - set (fst ?v)) < card (names w - set seen)"
      using fin by (rule psubset_card_mono[rotated])
    then show ?thesis by (simp add: case_prod_beta)
  qed
qed

definition scanAll :: "world \<Rightarrow> string list" where
  "scanAll w = scanLoop w [''home''] [''home'']"

definition openPorts :: "server \<Rightarrow> nat" where
  "openPorts sv = length (filter id
     [sshPortOpen sv, ftpPortOpen sv, smtpPortOpen sv, httpPortOpen sv, sqlPortOpen sv])"

text \<open>What \<open>autoNuke\<close> does to a server that is not \<open>home\<close>.\<close>

definition nuked :: "world \<Rightarrow> server \<Rightarrow> server" where
  "nuked w sv =
     (if hasRootAccess sv then sv
      else
        (let sv1 = sv\<lparr> sshPortOpen := sshPortOpen sv \<or> hasBruteSSH w,
                       ftpPortOpen := ftpPortOpen sv \<or> hasFTPCrack w,
                       smtpPortOpen := smtpPortOpen sv \<or> hasRelaySMTP w,
                       httpPortOpen := httpPortOpen sv \<or> hasHTTPWorm w,
                       sqlPortOpen := sqlPortOpen sv \<or> hasSQLInject w \<rparr>
         in if numOpenPortsRequired sv1 \<le> openPorts sv1
            then sv1\<lparr> hasRootAccess := True \<rparr> else sv1))"

definition autoNuke :: "world \<Rightarrow> string \<Rightarrow> world" where
  "autoNuke w s =
     (if s = ''home'' then w
      else w\<lparr> server := (server w)(s := nuked w (server w s)) \<rparr>)"

subsection \<open>Target selection\<close>

definition PRIMARY_DOMINANCE_RATIO :: real where "PRIMARY_DOMINANCE_RATIO = 14/10"
definition MIN_HACK_CHANCE_PRIMARY :: real where "MIN_HACK_CHANCE_PRIMARY = 65/100"
definition MIN_HACK_CHANCE_SECONDARY :: real where "MIN_HACK_CHANCE_SECONDARY = 45/100"
definition POOL :: nat where "POOL = 12"

definition candidateScore :: "world \<Rightarrow> string \<Rightarrow> real" where
  "candidateScore w s =
     (let maxMoney = serverMaxMoney (server w s);
          chance = hackAnalyzeChance (server w s);
          req = requiredHackingLevel (server w s)
      in if maxMoney \<le> 0 \<or> chance \<le> 0 then 0
         else (maxMoney * chance) / (1 + req / 10))"

text \<open>\<open>{ s, score, chance }\<close>\<close>

record candidate =
  host :: string
  score :: real
  chance :: real

text \<open>The \<open>for\<close> loop that fills \<open>cand\<close>; the world is the game state it leaves.\<close>

fun candidates :: "world \<Rightarrow> string list \<Rightarrow> candidate list \<Rightarrow> candidate list \<times> world" where
  "candidates w [] cand = (cand, w)"
| "candidates w (s # ss) cand =
     (if requiredHackingLevel (server w s) > hackingLevel w then candidates w ss cand
      else
        (let w' = autoNuke w s in
         if \<not> hasRootAccess (server w' s) then candidates w' ss cand
         else if hackAnalyzeChance (server w' s) \<le> 0 then candidates w' ss cand
         else candidates w' ss
                (cand @ [\<lparr> host = s, score = candidateScore w' s,
                           chance = hackAnalyzeChance (server w' s) \<rparr>])))"

text \<open>
  The decision on the sorted candidates. \<open>Array.prototype.sort\<close> is stable, and so is
  \<^const>\<open>sort_key\<close>; the comparison \<open>b.score - a.score\<close> sorts by falling score.
\<close>

definition decide :: "candidate list \<Rightarrow> strategy" where
  "decide cand =
     (let top = take POOL (sort_key (\<lambda>c. - score c) cand) in
      case top of
        [] \<Rightarrow> \<lparr> primary = None, secondaries = [] \<rparr>
      | top1 # rest \<Rightarrow>
          (let top2score = (case rest of [] \<Rightarrow> 0 | t # _ \<Rightarrow> score t) in
           if chance top1 \<ge> MIN_HACK_CHANCE_PRIMARY
              \<and> score top1 > top2score * PRIMARY_DOMINANCE_RATIO
           then \<lparr> primary = Some (host top1),
                  secondaries = map host (drop 1 (take (min (length top) 8) top)) \<rparr>
           else
             (let secs = map host (filter (\<lambda>t. chance t \<ge> MIN_HACK_CHANCE_SECONDARY) top) in
              if secs = [] then \<lparr> primary = Some (host top1), secondaries = [] \<rparr>
              else \<lparr> primary = None, secondaries = secs \<rparr>)))"

definition pickTargetsAndStrategy :: "world \<Rightarrow> strategy \<times> world" where
  "pickTargetsAndStrategy w =
     (let all = filter (\<lambda>s. s \<noteq> ''home'' \<and> serverMaxMoney (server w s) > 0) (scanAll w);
          (cand, w') = candidates w all []
      in (decide cand, w'))"

text \<open>
  Lines 59 and 60 of the main loop, which come right before each call of the
  selection: \<open>const all = scanAll(ns); for (const s of all) autoNuke(ns, s);\<close>
\<close>

definition autoNukeAll :: "world \<Rightarrow> world" where
  "autoNukeAll w = foldl autoNuke w (scanAll w)"

subsection \<open>Notions used in the statements about the selection\<close>

text \<open>A state in which the unlock is applied: \<open>autoNuke\<close> changes no scanned host.\<close>

definition settled :: "world \<Rightarrow> bool" where
  "settled w \<longleftrightarrow> (\<forall>n \<in> set (scanAll w). autoNuke w n = w)"

text \<open>A host that is not above the player's hacking level.\<close>

definition eligible :: "world \<Rightarrow> string \<Rightarrow> bool" where
  "eligible w s \<longleftrightarrow> \<not> requiredHackingLevel (server w s) > hackingLevel w"

text \<open>The state in which \<open>autoNuke\<close> was applied to the eligible hosts of a set.\<close>

definition unlocked :: "world \<Rightarrow> string set \<Rightarrow> world" where
  "unlocked w A =
     w\<lparr> server := (\<lambda>n. if n \<in> A \<and> eligible w n then nuked w (server w n) else server w n) \<rparr>"

text \<open>Whether the loop keeps a host, and the candidate it makes of it.\<close>

definition kept :: "world \<Rightarrow> string \<Rightarrow> bool" where
  "kept w s \<longleftrightarrow> eligible w s \<and> hasRootAccess (nuked w (server w s))
     \<and> \<not> hackAnalyzeChance (server w s) \<le> 0"

definition candidateOf :: "world \<Rightarrow> string \<Rightarrow> candidate" where
  "candidateOf w s =
     \<lparr> host = s, score = candidateScore w s, chance = hackAnalyzeChance (server w s) \<rparr>"

text \<open>The array \<open>all\<close> of the selection: the scanned hosts with money, without \<open>home\<close>.\<close>

definition moneyHosts :: "world \<Rightarrow> string list" where
  "moneyHosts w = filter (\<lambda>s. s \<noteq> ''home'' \<and> serverMaxMoney (server w s) > 0) (scanAll w)"

text \<open>
  A small network: \<open>home\<close> and one server that needs no open port and is not yet
  rooted; and the same network after the server was rooted.
\<close>

definition n00dles :: server where
  "n00dles = \<lparr> serverMaxMoney = 1750000, requiredHackingLevel = 1, hackAnalyzeChance = 9/10,
       hasRootAccess = False, numOpenPortsRequired = 0, sshPortOpen = False,
       ftpPortOpen = False, smtpPortOpen = False, httpPortOpen = False, sqlPortOpen = False \<rparr>"

definition homeServer :: server where
  "homeServer = \<lparr> serverMaxMoney = 0, requiredHackingLevel = 1, hackAnalyzeChance = 0,
       hasRootAccess = True, numOpenPortsRequired = 5, sshPortOpen = False,
       ftpPortOpen = False, smtpPortOpen = False, httpPortOpen = False, sqlPortOpen = False \<rparr>"

definition freshWorld :: world where
  "freshWorld = \<lparr> network = [(''home'', [''n00dles'']), (''n00dles'', [''home''])],
       server = (\<lambda>n. if n = ''n00dles'' then n00dles else homeServer),
       hackingLevel = 10, hasBruteSSH = False, hasFTPCrack = False, hasRelaySMTP = False,
       hasHTTPWorm = False, hasSQLInject = False \<rparr>"

definition rootedWorld :: world where
  "rootedWorld = \<lparr> network = [(''home'', [''n00dles'']), (''n00dles'', [''home''])],
       server = (\<lambda>n. if n = ''n00dles'' then n00dles\<lparr> hasRootAccess := True \<rparr> else homeServer),
       hackingLevel = 10, hasBruteSSH = False, hasFTPCrack = False, hasRelaySMTP = False,
       hasHTTPWorm = False, hasSQLInject = False \<rparr>"

section \<open>Properties of the batcher\<close>

subsection \<open>Steps of the packer\<close>

lemma concurrencyFor_Inr:
  "concurrencyFor f r = Inr c \<Longrightarrow> r \<noteq> 0 \<and> c = max 1 \<lfloor>f / r\<rfloor>"
  by (auto simp: concurrencyFor_def split: if_splits)

lemma packed_initialPlan: "packed ob (initialPlan pct ob)"
  by (simp add: packed_def initialPlan_def Let_def)

lemma repacked_Inr:
  assumes "repacked ob pct h g w1 w2 = Inr q"
  shows "packed ob q" "basePct q = pct" "hackThreads q = h" "growThreads q = g"
    "weaken1Threads q = w1" "weaken2Threads q = w2" "ramPerBatch q = batchRam ob h g w1 w2"
proof -
  obtain c where c: "concurrencyFor (freeRam ob) (batchRam ob h g w1 w2) = Inr c"
    using assms by (cases "concurrencyFor (freeRam ob) (batchRam ob h g w1 w2)")
      (simp_all add: repacked_def)
  then have q: "q = \<lparr> basePct = pct, hackThreads = h, growThreads = g,
                      weaken1Threads = w1, weaken2Threads = w2,
                      ramPerBatch = batchRam ob h g w1 w2, concurrency = c \<rparr>"
    using assms by (simp add: repacked_def)
  from concurrencyFor_Inr[OF c] show "packed ob q" by (simp add: q packed_def)
  show "basePct q = pct" "hackThreads q = h" "growThreads q = g"
    "weaken1Threads q = w1" "weaken2Threads q = w2" "ramPerBatch q = batchRam ob h g w1 w2"
    by (simp_all add: q)
qed

lemma packed_capStep:
  assumes "packed ob p" "capStep cap ob p = Inr q"
  shows "packed ob q"
proof (cases "real_of_int (concurrency p) * basePct p > cap")
  case True
  with assms(2) show ?thesis
    by (simp add: capStep_def Let_def repacked_Inr(1))
next
  case False
  with assms show ?thesis by (simp add: capStep_def)
qed

lemma packed_scaleStep:
  assumes "packed ob p" "scaleStep ob p = Inr q"
  shows "packed ob q"
proof (cases "concurrency p \<le> 0 \<or> ramPerBatch p > freeRam ob")
  case True
  with assms(2) show ?thesis
    by (simp add: scaleStep_def Let_def repacked_Inr(1) split: if_splits)
next
  case False
  with assms show ?thesis by (simp add: scaleStep_def)
qed

lemma packedPlan_Inr:
  assumes "packedPlan cap pct ob = Inr p"
  shows "\<exists>p1 p2. serverExists ob \<and> capStep cap ob (initialPlan pct ob) = Inr p1
    \<and> scaleStep ob p1 = Inr p2 \<and> p = finalClamp ob p2 \<and> packed ob p1 \<and> packed ob p2"
proof -
  from assms have ex: "serverExists ob"
    by (simp add: packedPlan_def split: if_splits)
  from assms ex obtain p1 where p1: "capStep cap ob (initialPlan pct ob) = Inr p1"
    by (cases "capStep cap ob (initialPlan pct ob)") (simp_all add: packedPlan_def)
  from assms ex p1 obtain p2 where p2: "scaleStep ob p1 = Inr p2"
    by (cases "scaleStep ob p1") (simp_all add: packedPlan_def)
  from assms ex p1 p2 have p: "p = finalClamp ob p2"
    by (simp add: packedPlan_def)
  have k1: "packed ob p1" using packed_capStep[OF packed_initialPlan p1] .
  have k2: "packed ob p2" using packed_scaleStep[OF k1 p2] .
  show ?thesis using ex p1 p2 p k1 k2 by blast
qed

lemma freeRam_nonneg: "0 \<le> freeRam ob"
  by (simp add: freeRam_def)

lemma floor_div_mult_le:
  fixes f r :: real
  assumes "0 < r"
  shows "real_of_int \<lfloor>f / r\<rfloor> * r \<le> f"
proof -
  have "real_of_int \<lfloor>f / r\<rfloor> \<le> f / r" by (rule of_int_floor_le)
  then show ?thesis using assms by (simp only: pos_le_divide_eq)
qed

lemma finalClamp_le: "packed ob p \<Longrightarrow> concurrency (finalClamp ob p) \<le> concurrency p"
proof -
  assume "packed ob p"
  then have "1 \<le> concurrency p" unfolding packed_def by linarith
  then show ?thesis unfolding finalClamp_def by simp
qed

lemma finalClamp_ge1: "1 \<le> concurrency (finalClamp ob p)"
  by (simp add: finalClamp_def)

lemma exampleHost_fields:
  "serverExists (exampleHost ph m u) = True"
  "perHack (exampleHost ph m u) = ph"
  "growthAnalyze (exampleHost ph m u) = linearGrowth"
  "formulasHackPercent (exampleHost ph m u) = None"
  "ramHack (exampleHost ph m u) = 17/10"
  "ramGrow (exampleHost ph m u) = 7/4"
  "ramWeaken (exampleHost ph m u) = 7/4"
  "hostMaxRam (exampleHost ph m u) = m"
  "hostUsedRam (exampleHost ph m u) = u"
  by (simp_all add: exampleHost_def)

lemma refinedPerHack_exampleHost: "refinedPerHack (exampleHost ph m u) = ph"
  by (simp add: refinedPerHack_def exampleHost_fields)

lemma batchRam_exampleHost:
  "batchRam (exampleHost ph m u) h g w1 w2 =
     real_of_int h * (17/10) + real_of_int g * (7/4) + real_of_int (w1 + w2) * (7/4)"
  by (simp add: batchRam_def exampleHost_fields)

lemma weakenThreadsFor_small: "0 \<le> x \<Longrightarrow> x \<le> 1/20 \<Longrightarrow> weakenThreadsFor x = 1"
proof -
  assume a: "0 \<le> x" "x \<le> 1/20"
  then have "x / SEC_DEC_WEAK \<le> 1" by (simp add: SEC_DEC_WEAK_def)
  then have "\<lceil>x / SEC_DEC_WEAK\<rceil> \<le> 1" by (simp add: ceiling_le_iff)
  then show ?thesis by (simp add: weakenThreadsFor_def)
qed

lemma free1: "freeRam (exampleHost ph 1024 0) = 25344/25"
  by (simp add: freeRam_def exampleHost_fields MIN_FREE_RAM_RATIO_def)

lemma h1: "hackThreadsFor (1/50) (3/1000) = 7" by (simp add: hackThreadsFor_def)
lemma g1: "growThreadsFor linearGrowth 7 (3/1000) = 1" by (simp add: growThreadsFor_def linearGrowth_def Let_def)
lemma w1: "weakenThreadsFor (7 * SEC_INC_HACK) = 1" by (rule weakenThreadsFor_small) (simp_all add: SEC_INC_HACK_def)
lemma w2: "weakenThreadsFor (SEC_INC_GROW) = 1" by (rule weakenThreadsFor_small) (simp_all add: SEC_INC_GROW_def)

lemma init1: "initialPlan (1/50) (exampleHost (3/1000) 1024 0) =
   \<lparr> basePct = 1/50, hackThreads = 7, growThreads = 1, weaken1Threads = 1,
           weaken2Threads = 1, ramPerBatch = 343/20, concurrency = 59 \<rparr>"
  by (simp add: initialPlan_def exampleHost_fields h1 g1 w1 w2 batchRam_exampleHost free1)

lemma packed_fits:
  assumes "packed ob p" "ramPerBatch p \<le> freeRam ob"
  shows "real_of_int (concurrency (finalClamp ob p)) * ramPerBatch p \<le> freeRam ob"
proof (cases "0 < ramPerBatch p")
  case True
  have c: "concurrency p = max 1 \<lfloor>freeRam ob / ramPerBatch p\<rfloor>"
    using assms(1) by (simp add: packed_def)
  have "1 \<le> freeRam ob / ramPerBatch p" using True assms(2) by simp
  then have "1 \<le> \<lfloor>freeRam ob / ramPerBatch p\<rfloor>" by linarith
  with c have "concurrency p = \<lfloor>freeRam ob / ramPerBatch p\<rfloor>" by linarith
  then have "real_of_int (concurrency p) * ramPerBatch p \<le> freeRam ob"
    using floor_div_mult_le[OF True, of "freeRam ob"] by simp
  moreover have "real_of_int (concurrency (finalClamp ob p)) * ramPerBatch p
      \<le> real_of_int (concurrency p) * ramPerBatch p"
    using finalClamp_le[OF assms(1)] True by (intro mult_right_mono) simp_all
  ultimately show ?thesis by linarith
next
  case False
  then have "ramPerBatch p \<le> 0" by simp
  moreover have "0 \<le> real_of_int (concurrency (finalClamp ob p))"
    using finalClamp_ge1[of ob p] by linarith
  ultimately have "real_of_int (concurrency (finalClamp ob p)) * ramPerBatch p \<le> 0"
    by (rule mult_nonneg_nonpos[rotated])
  then show ?thesis using freeRam_nonneg[of ob] by linarith
qed

lemma packed_overfull:
  assumes "packed ob p" "freeRam ob < ramPerBatch p"
  shows "concurrency (finalClamp ob p) = 1"
proof -
  have pos: "0 < ramPerBatch p" using assms(2) freeRam_nonneg[of ob] by linarith
  have "freeRam ob / ramPerBatch p < 1" using assms(2) pos by simp
  then have "\<lfloor>freeRam ob / ramPerBatch p\<rfloor> < 1" by linarith
  moreover have "concurrency p = max 1 \<lfloor>freeRam ob / ramPerBatch p\<rfloor>"
    using assms(1) by (simp add: packed_def)
  ultimately have "concurrency p = 1" by linarith
  then show ?thesis by (simp add: finalClamp_def)
qed

lemma ramPerBatch_finalClamp: "ramPerBatch (finalClamp ob p) = ramPerBatch p"
  by (simp add: finalClamp_def)

lemma cap1: "capStep (1/5) (exampleHost (3/1000) 1024 0)
    \<lparr> basePct = 1/50, hackThreads = 7, growThreads = 1, weaken1Threads = 1,
           weaken2Threads = 1, ramPerBatch = 343/20, concurrency = 59 \<rparr>
   = Inr \<lparr> basePct = 1/295, hackThreads = 2, growThreads = 1, weaken1Threads = 1,
           weaken2Threads = 1, ramPerBatch = 173/20, concurrency = 117 \<rparr>"
proof -
  have a: "perBatchAllowed (1/5) 59 = 1/295" by (simp add: perBatchAllowed_def)
  have h: "hackThreadsFor (1/295) (3/1000) = 2" by (simp add: hackThreadsFor_def)
  have g: "growThreadsFor linearGrowth 2 (3/1000) = 1"
    by (simp add: growThreadsFor_def linearGrowth_def Let_def)
  have w1: "weakenThreadsFor (2 * SEC_INC_HACK) = 1"
    by (rule weakenThreadsFor_small) (simp_all add: SEC_INC_HACK_def)
  show ?thesis
    by (simp add: capStep_def a h g w1 w2 refinedPerHack_exampleHost exampleHost_fields
        repacked_def batchRam_exampleHost free1 concurrencyFor_def)
qed

lemma scale1: "scaleStep (exampleHost (3/1000) 1024 0)
    \<lparr> basePct = 1/295, hackThreads = 2, growThreads = 1, weaken1Threads = 1,
           weaken2Threads = 1, ramPerBatch = 173/20, concurrency = 117 \<rparr>
   = Inr \<lparr> basePct = 1/295, hackThreads = 2, growThreads = 1, weaken1Threads = 1,
           weaken2Threads = 1, ramPerBatch = 173/20, concurrency = 117 \<rparr>"
  by (simp add: scaleStep_def free1)

lemma packed1: "packedPlan (1/5) (1/50) (exampleHost (3/1000) 1024 0)
   = Inr \<lparr> basePct = 1/295, hackThreads = 2, growThreads = 1, weaken1Threads = 1,
           weaken2Threads = 1, ramPerBatch = 173/20, concurrency = 117 \<rparr>"
  by (simp add: packedPlan_def exampleHost_fields init1 cap1 scale1 finalClamp_def free1)

lemma init0: "initialPlan (1/50) (exampleHost (1/20) 8 8) =
   \<lparr> basePct = 1/50, hackThreads = 1, growThreads = 2, weaken1Threads = 1,
           weaken2Threads = 1, ramPerBatch = 87/10, concurrency = 1 \<rparr>"
proof -
  have h: "hackThreadsFor (1/50) (1/20) = 1" by (simp add: hackThreadsFor_def)
  have g: "growThreadsFor linearGrowth 1 (1/20) = 2"
    by (simp add: growThreadsFor_def linearGrowth_def Let_def)
  have w1: "weakenThreadsFor SEC_INC_HACK = 1"
    by (rule weakenThreadsFor_small) (simp_all add: SEC_INC_HACK_def)
  have w2: "weakenThreadsFor (2 * SEC_INC_GROW) = 1"
    by (rule weakenThreadsFor_small) (simp_all add: SEC_INC_GROW_def)
  have f: "freeRam (exampleHost (1/20) 8 8) = 0"
    by (simp add: freeRam_def exampleHost_fields MIN_FREE_RAM_RATIO_def)
  show ?thesis
    by (simp add: initialPlan_def exampleHost_fields h g w1 w2 batchRam_exampleHost f)
qed

lemma packed0: "packedPlan (1/5) (1/50) (exampleHost (1/20) 8 8)
   = Inr \<lparr> basePct = 1/50, hackThreads = 1, growThreads = 1, weaken1Threads = 1,
           weaken2Threads = 1, ramPerBatch = 139/20, concurrency = 1 \<rparr>"
proof -
  have f: "freeRam (exampleHost (1/20) 8 8) = 0"
    by (simp add: freeRam_def exampleHost_fields MIN_FREE_RAM_RATIO_def)
  have c: "capStep (1/5) (exampleHost (1/20) 8 8)
      \<lparr> basePct = 1/50, hackThreads = 1, growThreads = 2, weaken1Threads = 1,
        weaken2Threads = 1, ramPerBatch = 87/10, concurrency = 1 \<rparr>
     = Inr \<lparr> basePct = 1/50, hackThreads = 1, growThreads = 2, weaken1Threads = 1,
        weaken2Threads = 1, ramPerBatch = 87/10, concurrency = 1 \<rparr>"
    by (simp add: capStep_def)
  have s: "scaleStep (exampleHost (1/20) 8 8)
      \<lparr> basePct = 1/50, hackThreads = 1, growThreads = 2, weaken1Threads = 1,
        weaken2Threads = 1, ramPerBatch = 87/10, concurrency = 1 \<rparr>
     = Inr \<lparr> basePct = 1/50, hackThreads = 1, growThreads = 1, weaken1Threads = 1,
        weaken2Threads = 1, ramPerBatch = 139/20, concurrency = 1 \<rparr>"
    by (simp add: scaleStep_def f scaleRound_def repacked_def batchRam_exampleHost
        concurrencyFor_def)
  show ?thesis
    by (simp add: packedPlan_def exampleHost_fields init0 c s finalClamp_def f)
qed

subsection \<open>Capacity\<close>

text \<open>
  Claim C1, as stated: for every free capacity and every plan of positive cost, the
  final values satisfy \<open>concurrency * ramPerBatch \<le> freeRam\<close>, also when one minimal
  batch costs more than the free capacity. It fails on a full host (8 GB, all used):
  the down-scaled batch of one thread per stage costs 6.95 GB, the free capacity is 0,
  and one batch is scheduled.
\<close>

theorem C1_counterexample:
  "packedPlan (1/5) (1/50) (exampleHost (1/20) 8 8)
     = Inr \<lparr> basePct = 1/50, hackThreads = 1, growThreads = 1, weaken1Threads = 1,
             weaken2Threads = 1, ramPerBatch = 139/20, concurrency = 1 \<rparr>
   \<and> freeRam (exampleHost (1/20) 8 8) = 0
   \<and> \<not> (real_of_int 1 * (139/20) \<le> freeRam (exampleHost (1/20) 8 8))"
  by (simp add: packed0 freeRam_def exampleHost_fields MIN_FREE_RAM_RATIO_def)

text \<open>
  Claim C1, amended: whenever the final cost of one batch fits the free capacity, the
  final values satisfy \<open>concurrency * ramPerBatch \<le> freeRam\<close>; when even the final
  batch costs more than the free capacity, exactly one batch is scheduled.
\<close>

theorem C1_capacity:
  assumes "packedPlan cap pct ob = Inr p"
  shows "(ramPerBatch p \<le> freeRam ob \<longrightarrow>
            real_of_int (concurrency p) * ramPerBatch p \<le> freeRam ob)
       \<and> (freeRam ob < ramPerBatch p \<longrightarrow> concurrency p = 1)"
proof -
  from packedPlan_Inr[OF assms] obtain p2 where
    p: "p = finalClamp ob p2" and k: "packed ob p2" by blast
  show ?thesis
    unfolding p ramPerBatch_finalClamp
    using packed_fits[OF k] packed_overfull[OF k] by blast
qed

theorem C1_capacity_witness:
  "packedPlan (1/5) (1/50) (exampleHost (3/1000) 1024 0)
     = Inr \<lparr> basePct = 1/295, hackThreads = 2, growThreads = 1, weaken1Threads = 1,
             weaken2Threads = 1, ramPerBatch = 173/20, concurrency = 117 \<rparr>
   \<and> (173/20 :: real) \<le> freeRam (exampleHost (3/1000) 1024 0)
   \<and> real_of_int 117 * (173/20) \<le> freeRam (exampleHost (3/1000) 1024 0)"
  using C1_capacity[OF packed1] by (simp add: packed1 free1)

subsection \<open>Thread counts\<close>

lemma hackThreadsFor_ge1: "1 \<le> hackThreadsFor pct ph"
  by (simp add: hackThreadsFor_def)

lemma growThreadsFor_ge1: "1 \<le> growThreadsFor ga h ph"
  by (simp add: growThreadsFor_def Let_def split: option.split)

lemma weakenThreadsFor_ge1: "1 \<le> weakenThreadsFor x"
  by (simp add: weakenThreadsFor_def)

lemma scaleRound_ge1: "1 \<le> scaleRound s v"
  by (simp add: scaleRound_def)

lemma threadsOk_initialPlan: "threadsOk (initialPlan pct ob)"
  by (simp add: threadsOk_def initialPlan_def Let_def hackThreadsFor_ge1 growThreadsFor_ge1
      weakenThreadsFor_ge1 split: option.split)

lemma threadsOk_capStep:
  assumes "threadsOk p" "capStep cap ob p = Inr q"
  shows "threadsOk q"
proof (cases "real_of_int (concurrency p) * basePct p > cap")
  case True
  with assms(2) show ?thesis
    by (simp add: capStep_def Let_def threadsOk_def repacked_Inr hackThreadsFor_ge1
        growThreadsFor_ge1 weakenThreadsFor_ge1)
next
  case False
  with assms show ?thesis by (simp add: capStep_def)
qed

lemma threadsOk_scaleStep:
  assumes "threadsOk p" "scaleStep ob p = Inr q"
  shows "threadsOk q"
proof (cases "concurrency p \<le> 0 \<or> ramPerBatch p > freeRam ob")
  case True
  with assms(2) show ?thesis
    by (simp add: scaleStep_def Let_def threadsOk_def repacked_Inr scaleRound_ge1
        split: if_splits)
next
  case False
  with assms show ?thesis by (simp add: scaleStep_def)
qed

lemma threadsOk_finalClamp: "threadsOk (finalClamp ob p) = threadsOk p"
  by (simp add: threadsOk_def finalClamp_def)

lemma batchRam_pos:
  assumes "costsOk ob" "1 \<le> h" "1 \<le> g" "1 \<le> w1" "1 \<le> w2"
  shows "0 < batchRam ob h g w1 w2"
proof -
  have a: "ramHack ob \<le> real_of_int h * ramHack ob"
    using assms(1,2) by (simp add: costsOk_def mult_le_cancel_right1)
  have b: "ramGrow ob \<le> real_of_int g * ramGrow ob"
    using assms(1,3) by (simp add: costsOk_def mult_le_cancel_right1)
  have "1 \<le> real_of_int (w1 + w2)" using assms(4,5) by simp
  then have c: "ramWeaken ob \<le> real_of_int (w1 + w2) * ramWeaken ob"
    using assms(1) by (simp only: costsOk_def mult_le_cancel_right1) simp
  have "0 < ramHack ob + ramGrow ob + ramWeaken ob" using assms(1) by (simp add: costsOk_def)
  with a b c show ?thesis unfolding batchRam_def by linarith
qed

lemma repacked_total:
  assumes "costsOk ob" "1 \<le> h" "1 \<le> g" "1 \<le> w1" "1 \<le> w2"
  shows "\<exists>q. repacked ob pct h g w1 w2 = Inr q"
  using batchRam_pos[OF assms] by (simp add: repacked_def concurrencyFor_def)

lemma capStep_total:
  assumes "costsOk ob"
  shows "\<exists>q. capStep cap ob p = Inr q"
  by (simp add: capStep_def Let_def repacked_total[OF assms] hackThreadsFor_ge1
      growThreadsFor_ge1 weakenThreadsFor_ge1)

lemma scaleStep_total:
  assumes "costsOk ob" "packed ob p"
  shows "\<exists>q. scaleStep ob p = Inr q"
proof (cases "concurrency p \<le> 0 \<or> ramPerBatch p > freeRam ob")
  case False
  then show ?thesis by (simp add: scaleStep_def)
next
  case True
  have "ramPerBatch p \<noteq> 0" using assms(2) by (simp add: packed_def)
  with True show ?thesis
    by (simp add: scaleStep_def Let_def repacked_total[OF assms(1)] scaleRound_ge1)
qed

lemma packedPlan_total:
  assumes "serverExists ob" "costsOk ob"
  shows "\<exists>p. packedPlan cap pct ob = Inr p"
proof -
  obtain p1 where p1: "capStep cap ob (initialPlan pct ob) = Inr p1"
    using capStep_total[OF assms(2)] by blast
  have "packed ob p1" using packed_capStep[OF packed_initialPlan p1] .
  then obtain p2 where p2: "scaleStep ob p1 = Inr p2"
    using scaleStep_total[OF assms(2)] by blast
  show ?thesis using assms(1) p1 p2 by (simp add: packedPlan_def)
qed

lemma packedPlan_threadsOk:
  assumes "packedPlan cap pct ob = Inr p"
  shows "threadsOk p"
proof -
  from packedPlan_Inr[OF assms] obtain p1 p2 where
    p1: "capStep cap ob (initialPlan pct ob) = Inr p1" and
    p2: "scaleStep ob p1 = Inr p2" and p: "p = finalClamp ob p2" by blast
  have "threadsOk p1" using threadsOk_capStep[OF threadsOk_initialPlan p1] .
  then have "threadsOk p2" using threadsOk_scaleStep p2 by blast
  then show ?thesis by (simp add: p threadsOk_finalClamp)
qed

lemma packedPlan_concurrency_ge1:
  assumes "packedPlan cap pct ob = Inr p"
  shows "1 \<le> concurrency p"
proof -
  from packedPlan_Inr[OF assms] obtain p2 where "p = finalClamp ob p2" by blast
  then show ?thesis by (simp add: finalClamp_ge1)
qed

lemma length_batchEntries: "threadsOk p \<Longrightarrow> length (batchEntries ob p b) = 4"
  by (simp add: batchEntries_def Let_def threadsOk_def)

lemma length_concat_const:
  assumes "\<And>b. length (f b) = k"
  shows "length (concat (map f [0 ..< n])) = n * k"
  by (induction n) (simp_all add: assms)

lemma length_schedule:
  assumes "threadsOk p"
  shows "length (schedule ob p) = nat (concurrency p) * 4"
  unfolding schedule_def
  by (rule length_concat_const) (rule length_batchEntries[OF assms])

text \<open>
  Claim C6: for every computed plan, also after the proportional down-scale, each of the
  four stage thread counts is an integer of at least 1, and the packer never refuses to
  schedule: the plan has at least one batch, and four calls are made per batch, each
  with at least one thread. A pass returns such a plan whenever the target exists and
  the script costs are not all zero.
\<close>

theorem C6_minimum_threads:
  "(cycle cap pct ob = Inr (p, es) \<longrightarrow>
      1 \<le> hackThreads p \<and> 1 \<le> weaken1Threads p
      \<and> 1 \<le> growThreads p \<and> 1 \<le> weaken2Threads p
      \<and> 1 \<le> concurrency p
      \<and> length es = nat (concurrency p) * 4
      \<and> (\<forall>e \<in> set es. 1 \<le> threads e))
   \<and> (serverExists ob \<and> costsOk ob \<longrightarrow> (\<exists>q qs. cycle cap pct ob = Inr (q, qs)))"
proof -
  have returned: "1 \<le> hackThreads p \<and> 1 \<le> weaken1Threads p
      \<and> 1 \<le> growThreads p \<and> 1 \<le> weaken2Threads p
      \<and> 1 \<le> concurrency p
      \<and> length es = nat (concurrency p) * 4
      \<and> (\<forall>e \<in> set es. 1 \<le> threads e)"
    if r: "cycle cap pct ob = Inr (p, es)"
  proof -
    from r have p: "packedPlan cap pct ob = Inr p" and es: "es = schedule ob p"
      by (auto simp: cycle_def split: sum.splits)
    have t: "threadsOk p" using packedPlan_threadsOk[OF p] .
    have c: "1 \<le> concurrency p" using packedPlan_concurrency_ge1[OF p] .
    have e: "\<forall>e \<in> set (schedule ob p). 1 \<le> threads e"
      by (auto simp: schedule_def batchEntries_def Let_def)
    from t c e length_schedule[OF t] show ?thesis
      unfolding threadsOk_def es by blast
  qed
  have returns: "\<exists>q qs. cycle cap pct ob = Inr (q, qs)" if "serverExists ob \<and> costsOk ob"
  proof -
    from that obtain q where "packedPlan cap pct ob = Inr q"
      using packedPlan_total by blast
    then show ?thesis by (simp add: cycle_def)
  qed
  show ?thesis using returned returns by blast
qed

theorem C6_minimum_threads_witness:
  "serverExists (exampleHost (1/20) 8 8) \<and> costsOk (exampleHost (1/20) 8 8)
   \<and> cycle (1/5) (1/50) (exampleHost (1/20) 8 8)
       = Inr (\<lparr> basePct = 1/50, hackThreads = 1, growThreads = 1, weaken1Threads = 1,
                 weaken2Threads = 1, ramPerBatch = 139/20, concurrency = 1 \<rparr>,
              schedule (exampleHost (1/20) 8 8)
                \<lparr> basePct = 1/50, hackThreads = 1, growThreads = 1, weaken1Threads = 1,
                  weaken2Threads = 1, ramPerBatch = 139/20, concurrency = 1 \<rparr>)
   \<and> length (schedule (exampleHost (1/20) 8 8)
                \<lparr> basePct = 1/50, hackThreads = 1, growThreads = 1, weaken1Threads = 1,
                  weaken2Threads = 1, ramPerBatch = 139/20, concurrency = 1 \<rparr>) = 4"
proof -
  let ?ob = "exampleHost (1/20) 8 8"
  let ?p = "\<lparr> basePct = 1/50, hackThreads = 1, growThreads = 1, weaken1Threads = 1,
              weaken2Threads = 1, ramPerBatch = 139/20, concurrency = 1 \<rparr>"
  have a: "serverExists ?ob \<and> costsOk ?ob"
    by (simp add: exampleHost_fields costsOk_def)
  have c: "cycle (1/5) (1/50) ?ob = Inr (?p, schedule ?ob ?p)"
    by (simp add: cycle_def packed0)
  from C6_minimum_threads[of "1/5" "1/50" ?ob ?p "schedule ?ob ?p"] c
  have "length (schedule ?ob ?p) = nat (concurrency ?p) * 4" by blast
  then have "length (schedule ?ob ?p) = 4" by simp
  with a c show ?thesis by blast
qed

subsection \<open>Stage timing\<close>

lemma batchOffset_nonneg: "0 \<le> batchOffset b c"
proof -
  have "0 \<le> real b / real_of_int (max 1 c) * real_of_int (DELTA * 4)"
    by (simp add: DELTA_def)
  then have "round (0::real) \<le> round (real b / real_of_int (max 1 c) * real_of_int (DELTA * 4))"
    by (rule round_mono)
  then show ?thesis by (simp add: batchOffset_def)
qed

lemma lead_ge:
  assumes "d \<le> longest ob" "0 \<le> k"
  shows "1400 \<le> lead ob c b k d"
proof -
  have "0 \<le> k * DELTA" using assms(2) by (simp add: DELTA_def)
  then have "1400 \<le> BUFFER + batchOffset b c + k * DELTA"
    using batchOffset_nonneg[of b c] by (simp add: BUFFER_def)
  then have "1400 \<le> real_of_int (BUFFER + batchOffset b c + k * DELTA)" by linarith
  with assms(1) show ?thesis unfolding lead_def by linarith
qed

lemma round_lead_pos:
  assumes "d \<le> longest ob" "0 \<le> k"
  shows "max 0 (round (lead ob c b k d)) = round (lead ob c b k d)"
proof -
  have "round (1400::real) \<le> round (lead ob c b k d)"
    by (rule round_mono) (rule lead_ge[OF assms])
  then show ?thesis by simp
qed

lemma longest_ge: "hackTime ob \<le> longest ob" "growTime ob \<le> longest ob" "weakenTime ob \<le> longest ob"
  by (simp_all add: longest_def)

lemma hackStartDelay_lead:
  "hackStartDelay ob (batchT ob c b) (now ob) = round (lead ob c b 0 (hackTime ob))"
proof -
  have "(batchT ob c b - hackTime ob) - real_of_int (now ob) = lead ob c b 0 (hackTime ob)"
    by (simp add: batchT_def baseT_def lead_def)
  then show ?thesis
    unfolding hackStartDelay_def using round_lead_pos[OF longest_ge(1), of 0 ob c b] by simp
qed

lemma weaken1StartDelay_lead:
  "weaken1StartDelay ob (batchT ob c b) (now ob) = round (lead ob c b 1 (weakenTime ob))"
proof -
  have "(batchT ob c b + real_of_int DELTA - weakenTime ob) - real_of_int (now ob)
      = lead ob c b 1 (weakenTime ob)"
    by (simp add: batchT_def baseT_def lead_def)
  then show ?thesis
    unfolding weaken1StartDelay_def using round_lead_pos[OF longest_ge(3), of 1 ob c b] by simp
qed

lemma growStartDelay_lead:
  "growStartDelay ob (batchT ob c b) (now ob) = round (lead ob c b 2 (growTime ob))"
proof -
  have "(batchT ob c b + real_of_int (2 * DELTA) - growTime ob) - real_of_int (now ob)
      = lead ob c b 2 (growTime ob)"
    by (simp add: batchT_def baseT_def lead_def)
  then show ?thesis
    unfolding growStartDelay_def using round_lead_pos[OF longest_ge(2), of 2 ob c b] by simp
qed

lemma weaken2StartDelay_lead:
  "weaken2StartDelay ob (batchT ob c b) (now ob) = round (lead ob c b 3 (weakenTime ob))"
proof -
  have "(batchT ob c b + real_of_int (3 * DELTA) - weakenTime ob) - real_of_int (now ob)
      = lead ob c b 3 (weakenTime ob)"
    by (simp add: batchT_def baseT_def lead_def)
  then show ?thesis
    unfolding weaken2StartDelay_def using round_lead_pos[OF longest_ge(3), of 3 ob c b] by simp
qed

text \<open>A completion is the intended instant, up to the rounding of the delay.\<close>

lemma completion_near:
  "\<bar>real_of_int (now ob + round (lead ob c b k d)) + d
     - (batchT ob c b + real_of_int (k * DELTA))\<bar> \<le> 1/2"
proof -
  have "real_of_int (now ob + round (lead ob c b k d)) + d
     - (batchT ob c b + real_of_int (k * DELTA))
     = real_of_int (round (lead ob c b k d)) - lead ob c b k d"
    by (simp add: batchT_def baseT_def lead_def)
  then show ?thesis by (simp only: of_int_round_abs_le)
qed

lemma completion_exact:
  assumes "lead ob c b k d \<in> \<int>"
  shows "real_of_int (now ob + round (lead ob c b k d)) + d
     = batchT ob c b + real_of_int (k * DELTA)"
proof -
  from assms obtain n where n: "lead ob c b k d = real_of_int n" by (auto elim: Ints_cases)
  have "real_of_int (round (lead ob c b k d)) = lead ob c b k d"
    unfolding n by simp
  then show ?thesis by (simp add: batchT_def baseT_def lead_def)
qed

lemma lead_Ints:
  assumes "hackTime ob \<in> \<int>" "growTime ob \<in> \<int>" "weakenTime ob \<in> \<int>" "d \<in> \<int>"
  shows "lead ob c b k d \<in> \<int>"
proof -
  have "longest ob \<in> \<int>" using assms(1-3) by (simp add: longest_def max_def)
  then show ?thesis unfolding lead_def using assms(4) by (intro Ints_add Ints_diff Ints_of_int)
qed

lemma exampleHost_times:
  "hackTime (exampleHost ph m u) = 4001/4"
  "growTime (exampleHost ph m u) = 3200"
  "weakenTime (exampleHost ph m u) = 4000"
  "now (exampleHost ph m u) = 1700000000000"
  by (simp_all add: exampleHost_def)

text \<open>
  Claim C3, as stated: the completion instants are strictly increasing in the order
  extract, counter A, replenish, counter B, and consecutive completions differ by
  exactly \<open>DELTA\<close>. The gap is not exact when a duration is not a whole number of
  milliseconds: with a hack time of 1000.25 ms the delay 4399.75 is rounded to 4400,
  and the first gap is 249.75 ms.
\<close>

theorem C3_counterexample:
  "hackCompletion (exampleHost (3/1000) 1024 0) 117 0 = 1700000005400 + 1/4
   \<and> weaken1Completion (exampleHost (3/1000) 1024 0) 117 0 = 1700000005650
   \<and> weaken1Completion (exampleHost (3/1000) 1024 0) 117 0
       - hackCompletion (exampleHost (3/1000) 1024 0) 117 0 \<noteq> real_of_int DELTA"
  by (simp add: hackCompletion_def weaken1Completion_def hackStartDelay_def
      weaken1StartDelay_def batchT_def baseT_def longest_def batchOffset_def
      exampleHost_times round_def DELTA_def BUFFER_def)

text \<open>
  Claim C3, amended: for every batch index, all durations and every current time, the
  completion instants implied by the start delays are strictly increasing in the order
  extract, counter A, replenish, counter B; consecutive completions differ from
  \<open>DELTA\<close> by at most 1 ms (the rounding of the two delays), and by exactly \<open>DELTA\<close>
  when the three durations are whole numbers of milliseconds.
\<close>

theorem C3_stage_order:
  fixes ob :: observation and c :: int and b :: nat
  defines "h \<equiv> hackCompletion ob c b" and "w1 \<equiv> weaken1Completion ob c b"
    and "g \<equiv> growCompletion ob c b" and "w2 \<equiv> weaken2Completion ob c b"
  shows "h < w1 \<and> w1 < g \<and> g < w2
       \<and> \<bar>w1 - h - real_of_int DELTA\<bar> \<le> 1 \<and> \<bar>g - w1 - real_of_int DELTA\<bar> \<le> 1
       \<and> \<bar>w2 - g - real_of_int DELTA\<bar> \<le> 1
       \<and> (hackTime ob \<in> \<int> \<and> growTime ob \<in> \<int> \<and> weakenTime ob \<in> \<int> \<longrightarrow>
            w1 - h = real_of_int DELTA \<and> g - w1 = real_of_int DELTA
          \<and> w2 - g = real_of_int DELTA)"
proof -
  let ?T = "batchT ob c b"
  have eh: "\<bar>h - (?T + real_of_int (0 * DELTA))\<bar> \<le> 1/2"
    unfolding h_def hackCompletion_def hackStartDelay_lead by (rule completion_near)
  have e1: "\<bar>w1 - (?T + real_of_int (1 * DELTA))\<bar> \<le> 1/2"
    unfolding w1_def weaken1Completion_def weaken1StartDelay_lead by (rule completion_near)
  have eg: "\<bar>g - (?T + real_of_int (2 * DELTA))\<bar> \<le> 1/2"
    unfolding g_def growCompletion_def growStartDelay_lead by (rule completion_near)
  have e2: "\<bar>w2 - (?T + real_of_int (3 * DELTA))\<bar> \<le> 1/2"
    unfolding w2_def weaken2Completion_def weaken2StartDelay_lead by (rule completion_near)
  have D: "real_of_int DELTA = 250" by (simp add: DELTA_def)
  have D': "real_of_int (0 * DELTA) = 0" "real_of_int (1 * DELTA) = 250"
    "real_of_int (2 * DELTA) = 500" "real_of_int (3 * DELTA) = 750"
    by (simp_all add: DELTA_def)
  have near: "h < w1 \<and> w1 < g \<and> g < w2
       \<and> \<bar>w1 - h - real_of_int DELTA\<bar> \<le> 1 \<and> \<bar>g - w1 - real_of_int DELTA\<bar> \<le> 1
       \<and> \<bar>w2 - g - real_of_int DELTA\<bar> \<le> 1"
  proof (intro conjI)
    show "h < w1" using eh e1 unfolding D' by linarith
    show "w1 < g" using e1 eg unfolding D' by linarith
    show "g < w2" using eg e2 unfolding D' by linarith
    show "\<bar>w1 - h - real_of_int DELTA\<bar> \<le> 1" using eh e1 unfolding D' D by linarith
    show "\<bar>g - w1 - real_of_int DELTA\<bar> \<le> 1" using e1 eg unfolding D' D by linarith
    show "\<bar>w2 - g - real_of_int DELTA\<bar> \<le> 1" using eg e2 unfolding D' D by linarith
  qed
  have exact: "w1 - h = real_of_int DELTA \<and> g - w1 = real_of_int DELTA
          \<and> w2 - g = real_of_int DELTA"
    if i: "hackTime ob \<in> \<int>" "growTime ob \<in> \<int>" "weakenTime ob \<in> \<int>"
  proof -
    have xh: "h = ?T + real_of_int (0 * DELTA)"
      unfolding h_def hackCompletion_def hackStartDelay_lead
      by (rule completion_exact) (rule lead_Ints[OF i i(1)])
    have x1: "w1 = ?T + real_of_int (1 * DELTA)"
      unfolding w1_def weaken1Completion_def weaken1StartDelay_lead
      by (rule completion_exact) (rule lead_Ints[OF i i(3)])
    have xg: "g = ?T + real_of_int (2 * DELTA)"
      unfolding g_def growCompletion_def growStartDelay_lead
      by (rule completion_exact) (rule lead_Ints[OF i i(2)])
    have x2: "w2 = ?T + real_of_int (3 * DELTA)"
      unfolding w2_def weaken2Completion_def weaken2StartDelay_lead
      by (rule completion_exact) (rule lead_Ints[OF i i(3)])
    show ?thesis unfolding xh x1 xg x2 D' D by simp
  qed
  show ?thesis using near exact by blast
qed

theorem C3_stage_order_witness:
  "hackTime wholeMsHost \<in> \<int> \<and> growTime wholeMsHost \<in> \<int> \<and> weakenTime wholeMsHost \<in> \<int>
   \<and> weaken1Completion wholeMsHost 117 29 - hackCompletion wholeMsHost 117 29 = real_of_int DELTA
   \<and> growCompletion wholeMsHost 117 29 - weaken1Completion wholeMsHost 117 29 = real_of_int DELTA
   \<and> weaken2Completion wholeMsHost 117 29 - growCompletion wholeMsHost 117 29 = real_of_int DELTA
   \<and> hackCompletion wholeMsHost 117 29 = 1700000005648"
proof -
  have i: "hackTime wholeMsHost \<in> \<int> \<and> growTime wholeMsHost \<in> \<int> \<and> weakenTime wholeMsHost \<in> \<int>"
    by (simp add: wholeMsHost_def exampleHost_def)
  have v: "hackCompletion wholeMsHost 117 29 = 1700000005648"
    by (simp add: hackCompletion_def hackStartDelay_def batchT_def baseT_def longest_def
        batchOffset_def wholeMsHost_def exampleHost_def round_def DELTA_def BUFFER_def)
  show ?thesis using C3_stage_order[of wholeMsHost 117 29] i v by blast
qed

subsection \<open>Yield cap\<close>

lemma scaleRound_half:
  assumes "1 \<le> v" "0 < s"
  shows "real_of_int v * s / 2 < real_of_int (scaleRound s v)"
proof (cases "real_of_int v * s < 2")
  case True
  have "1 \<le> real_of_int (scaleRound s v)" using scaleRound_ge1[of s v] by linarith
  with True show ?thesis by linarith
next
  case False
  have "real_of_int v * s - 1 < real_of_int \<lfloor>real_of_int v * s\<rfloor>" by linarith
  moreover have "real_of_int \<lfloor>real_of_int v * s\<rfloor> \<le> real_of_int (scaleRound s v)"
    by (simp add: scaleRound_def)
  ultimately show ?thesis using False by linarith
qed

lemma batchRam_scaled:
  assumes c: "costsOk ob" and t: "1 \<le> h" "1 \<le> g" "1 \<le> w1" "1 \<le> w2" and s: "0 < s"
  shows "batchRam ob h g w1 w2 * s / 2
       < batchRam ob (scaleRound s h) (scaleRound s g) (scaleRound s w1) (scaleRound s w2)"
proof -
  define H where "H = real_of_int (scaleRound s h) - real_of_int h * s / 2"
  define G where "G = real_of_int (scaleRound s g) - real_of_int g * s / 2"
  define W where "W = real_of_int (scaleRound s w1) + real_of_int (scaleRound s w2)
     - (real_of_int w1 + real_of_int w2) * s / 2"
  have H: "0 < H" unfolding H_def using scaleRound_half[OF t(1) s] by linarith
  have G: "0 < G" unfolding G_def using scaleRound_half[OF t(2) s] by linarith
  have W: "0 < W" unfolding W_def
    using scaleRound_half[OF t(3) s] scaleRound_half[OF t(4) s]
    by (simp add: algebra_simps)
  have rh: "0 \<le> ramHack ob" and rg: "0 \<le> ramGrow ob" and rw: "0 \<le> ramWeaken ob"
    and some: "0 < ramHack ob + ramGrow ob + ramWeaken ob"
    using c by (simp_all add: costsOk_def)
  have nn: "0 \<le> H * ramHack ob" "0 \<le> G * ramGrow ob" "0 \<le> W * ramWeaken ob"
    using H G W rh rg rw by simp_all
  have "0 < H * ramHack ob \<or> 0 < G * ramGrow ob \<or> 0 < W * ramWeaken ob"
    using some rh rg rw H G W
    by (metis add_nonpos_nonpos less_eq_real_def linorder_not_less mult_pos_pos)
  with nn have pos: "0 < H * ramHack ob + G * ramGrow ob + W * ramWeaken ob" by linarith
  have "batchRam ob (scaleRound s h) (scaleRound s g) (scaleRound s w1) (scaleRound s w2)
        - batchRam ob h g w1 w2 * s / 2
      = H * ramHack ob + G * ramGrow ob + W * ramWeaken ob"
    unfolding batchRam_def H_def G_def W_def by (simp add: algebra_simps)
  with pos show ?thesis by linarith
qed

lemma costed_initialPlan:
  assumes "costsOk ob"
  shows "costed ob (initialPlan pct ob)"
proof -
  have "0 < batchRam ob (hackThreads (initialPlan pct ob)) (growThreads (initialPlan pct ob))
      (weaken1Threads (initialPlan pct ob)) (weaken2Threads (initialPlan pct ob))"
    using threadsOk_initialPlan[of pct ob]
    by (intro batchRam_pos[OF assms]) (simp_all add: threadsOk_def)
  then show ?thesis
    by (simp add: costed_def initialPlan_def Let_def split: option.splits)
qed

lemma costed_capStep:
  assumes "costed ob p" "capStep cap ob p = Inr q"
  shows "costed ob q"
proof (cases "real_of_int (concurrency p) * basePct p > cap")
  case True
  with assms(2) show ?thesis
    by (simp add: capStep_def Let_def costed_def repacked_Inr)
next
  case False
  with assms show ?thesis by (simp add: capStep_def)
qed

text \<open>When the down-scale runs, one batch is scheduled.\<close>

lemma scaleStep_one:
  assumes c: "costsOk ob" and k: "packed ob p" and t: "threadsOk p" and r: "costed ob p"
    and over: "freeRam ob < ramPerBatch p" and q: "scaleStep ob p = Inr q"
  shows "concurrency q = 1"
proof -
  define s where "s = max (1/100) (freeRam ob / ramPerBatch p)"
  have rpos: "0 < ramPerBatch p" using over freeRam_nonneg[of ob] by linarith
  have spos: "0 < s" unfolding s_def by simp
  have "freeRam ob / ramPerBatch p \<le> s" unfolding s_def by simp
  then have fs: "freeRam ob \<le> ramPerBatch p * s"
    using rpos by (simp add: pos_divide_le_eq mult.commute)
  define r' where "r' = batchRam ob (scaleRound s (hackThreads p)) (scaleRound s (growThreads p))
      (scaleRound s (weaken1Threads p)) (scaleRound s (weaken2Threads p))"
  have "ramPerBatch p * s / 2 < r'"
    using batchRam_scaled[OF c _ _ _ _ spos, of "hackThreads p" "growThreads p"
        "weaken1Threads p" "weaken2Threads p"] t r
    by (simp add: threadsOk_def costed_def r'_def)
  with fs have half: "freeRam ob / 2 < r'" by linarith
  then have r'pos: "0 < r'" using freeRam_nonneg[of ob] by linarith
  from half r'pos have "freeRam ob / r' < 2" by (simp add: pos_divide_less_eq)
  then have fl: "\<lfloor>freeRam ob / r'\<rfloor> \<le> 1" by linarith
  from q over rpos have "repacked ob (basePct p) (scaleRound s (hackThreads p))
      (scaleRound s (growThreads p)) (scaleRound s (weaken1Threads p))
      (scaleRound s (weaken2Threads p)) = Inr q"
    by (simp add: scaleStep_def Let_def s_def)
  from repacked_Inr(1,7)[OF this] have "concurrency q = max 1 \<lfloor>freeRam ob / r'\<rfloor>"
    by (simp add: packed_def r'_def)
  with fl show ?thesis by linarith
qed

lemma basePct_finalClamp: "basePct (finalClamp ob p) = basePct p"
  by (simp add: finalClamp_def)

lemma basePct_scaleStep:
  assumes "scaleStep ob p = Inr q"
  shows "basePct q = basePct p"
proof (cases "concurrency p \<le> 0 \<or> ramPerBatch p > freeRam ob")
  case True
  with assms show ?thesis
    by (simp add: scaleStep_def Let_def repacked_Inr(2) split: if_splits)
next
  case False
  with assms show ?thesis by (simp add: scaleStep_def)
qed

lemma basePct_capStep:
  assumes "capStep cap ob p = Inr q"
  shows "basePct q = (if real_of_int (concurrency p) * basePct p > cap
                      then perBatchAllowed cap (concurrency p) else basePct p)"
proof (cases "real_of_int (concurrency p) * basePct p > cap")
  case True
  with assms show ?thesis by (simp add: capStep_def Let_def repacked_Inr(2))
next
  case False
  with assms show ?thesis by (simp add: capStep_def)
qed

lemma capStep_unchanged:
  "\<not> real_of_int (concurrency p) * basePct p > cap \<Longrightarrow> capStep cap ob p = Inr p"
  by (simp add: capStep_def)

lemma concurrency_scaleStep:
  assumes c: "costsOk ob" and k: "packed ob p" and t: "threadsOk p" and r: "costed ob p"
    and q: "scaleStep ob p = Inr q"
  shows "concurrency q = (if freeRam ob < ramPerBatch p then 1 else concurrency p)"
proof (cases "freeRam ob < ramPerBatch p")
  case True
  then show ?thesis using scaleStep_one[OF c k t r True q] by simp
next
  case False
  moreover have "\<not> concurrency p \<le> 0" using k by (simp add: packed_def)
  ultimately show ?thesis using q by (simp add: scaleStep_def)
qed

lemma packed_ge1: "packed ob p \<Longrightarrow> 1 \<le> concurrency p"
  by (simp add: packed_def)

lemma fraction_bound:
  fixes cap pct :: real and c c0 :: int
  assumes "1 \<le> c" "c \<le> c0"
  shows "real_of_int c * (if real_of_int c0 * pct > cap then perBatchAllowed cap c0 else pct)
           \<le> max cap (real_of_int c * (1/1000))"
proof (cases "real_of_int c0 * pct > cap")
  case True
  show ?thesis
  proof (cases "cap / real_of_int c0 \<le> 1/1000")
    case le: True
    then have "perBatchAllowed cap c0 = 1/1000" by (simp add: perBatchAllowed_def)
    then have "real_of_int c * perBatchAllowed cap c0 = real_of_int c * (1/1000)"
      by (simp only:)
    with True show ?thesis by (simp only: if_True max.cobounded2)
  next
    case gt: False
    then have a: "perBatchAllowed cap c0 = cap / real_of_int c0"
      by (simp add: perBatchAllowed_def)
    have c0pos: "0 < real_of_int c0" using assms by simp
    have "0 < cap / real_of_int c0" using gt by linarith
    then have cappos: "0 < cap" using c0pos by (simp add: zero_less_divide_iff)
    have "real_of_int c * cap \<le> real_of_int c0 * cap"
      using assms(2) cappos by (intro mult_right_mono) simp_all
    then have "real_of_int c * (cap / real_of_int c0) \<le> cap"
      using c0pos by (simp add: pos_divide_le_eq mult.commute)
    with True a show ?thesis by simp
  qed
next
  case False
  show ?thesis
  proof (cases "pct \<le> 1/1000")
    case True
    then have "real_of_int c * pct \<le> real_of_int c * (1/1000)"
      using assms(1) by (intro mult_left_mono) simp_all
    with False show ?thesis by simp
  next
    case gt: False
    then have "real_of_int c * pct \<le> real_of_int c0 * pct"
      using assms(2) by (intro mult_right_mono) simp_all
    with False show ?thesis by simp
  qed
qed

lemma free2: "freeRam (exampleHost ph 2048 0) = 50688/25"
  by (simp add: freeRam_def exampleHost_fields MIN_FREE_RAM_RATIO_def)

lemma packed2: "packedPlan (1/5) (1/50) (exampleHost (1/20) 2048 0)
   = Inr \<lparr> basePct = 1/1000, hackThreads = 1, growThreads = 2, weaken1Threads = 1,
           weaken2Threads = 1, ramPerBatch = 87/10, concurrency = 233 \<rparr>"
proof -
  have h: "hackThreadsFor (1/50) (1/20) = 1" by (simp add: hackThreadsFor_def)
  have h': "hackThreadsFor (1/1000) (1/20) = 1" by (simp add: hackThreadsFor_def)
  have g: "growThreadsFor linearGrowth 1 (1/20) = 2"
    by (simp add: growThreadsFor_def linearGrowth_def Let_def)
  have w1: "weakenThreadsFor SEC_INC_HACK = 1"
    by (rule weakenThreadsFor_small) (simp_all add: SEC_INC_HACK_def)
  have w2: "weakenThreadsFor (2 * SEC_INC_GROW) = 1"
    by (rule weakenThreadsFor_small) (simp_all add: SEC_INC_GROW_def)
  have i: "initialPlan (1/50) (exampleHost (1/20) 2048 0) =
     \<lparr> basePct = 1/50, hackThreads = 1, growThreads = 2, weaken1Threads = 1,
       weaken2Threads = 1, ramPerBatch = 87/10, concurrency = 233 \<rparr>"
    by (simp add: initialPlan_def exampleHost_fields h g w1 w2 batchRam_exampleHost free2)
  have a: "perBatchAllowed (1/5) 233 = 1/1000" by (simp add: perBatchAllowed_def)
  have c: "capStep (1/5) (exampleHost (1/20) 2048 0)
      \<lparr> basePct = 1/50, hackThreads = 1, growThreads = 2, weaken1Threads = 1,
        weaken2Threads = 1, ramPerBatch = 87/10, concurrency = 233 \<rparr>
     = Inr \<lparr> basePct = 1/1000, hackThreads = 1, growThreads = 2, weaken1Threads = 1,
        weaken2Threads = 1, ramPerBatch = 87/10, concurrency = 233 \<rparr>"
    by (simp add: capStep_def a h' g w1 w2 refinedPerHack_exampleHost exampleHost_fields
        repacked_def batchRam_exampleHost free2 concurrencyFor_def)
  have s: "scaleStep (exampleHost (1/20) 2048 0)
      \<lparr> basePct = 1/1000, hackThreads = 1, growThreads = 2, weaken1Threads = 1,
        weaken2Threads = 1, ramPerBatch = 87/10, concurrency = 233 \<rparr>
     = Inr \<lparr> basePct = 1/1000, hackThreads = 1, growThreads = 2, weaken1Threads = 1,
        weaken2Threads = 1, ramPerBatch = 87/10, concurrency = 233 \<rparr>"
    by (simp add: scaleStep_def free2)
  show ?thesis
    by (simp add: packedPlan_def exampleHost_fields i c s finalClamp_def free2)
qed

lemma costsOk_exampleHost: "costsOk (exampleHost ph m u)"
  by (simp add: costsOk_def exampleHost_fields)

text \<open>
  What the check does keep. The fraction it leaves is within the cap for the
  concurrency it was made with, down to the floor of 0.001 under the shrunk fraction
  (line 120): with 233 batches the fraction stays at 0.001. So the total is within
  the larger of the cap and 0.001 per batch in every pass whose final concurrency is
  not above the checked one, as when the check does not fire and when the
  down-scale runs.
\<close>

lemma floor_total:
  "packedPlan (1/5) (1/50) (exampleHost (1/20) 2048 0)
     = Inr \<lparr> basePct = 1/1000, hackThreads = 1, growThreads = 2, weaken1Threads = 1,
             weaken2Threads = 1, ramPerBatch = 87/10, concurrency = 233 \<rparr>
   \<and> real_of_int 233 * (1/1000) \<le> max (1/5 :: real) (real_of_int 233 * (1/1000))"
  by (simp add: packed2)

lemma checked_total:
  assumes "packedPlan cap pct ob = Inr p" and "costsOk ob"
  shows "(concurrency p \<le> concurrency (initialPlan pct ob) \<longrightarrow>
            real_of_int (concurrency p) * basePct p
              \<le> max cap (real_of_int (concurrency p) * (1/1000)))
       \<and> (real_of_int (concurrency (initialPlan pct ob)) * pct \<le> cap \<longrightarrow>
            concurrency p \<le> concurrency (initialPlan pct ob))
       \<and> (\<forall>p1. capStep cap ob (initialPlan pct ob) = Inr p1 \<and> freeRam ob < ramPerBatch p1 \<longrightarrow>
            concurrency p = 1)"
proof -
  let ?i = "initialPlan pct ob"
  from packedPlan_Inr[OF assms(1)] obtain p1 p2 where
    p1: "capStep cap ob ?i = Inr p1" and p2: "scaleStep ob p1 = Inr p2"
    and p: "p = finalClamp ob p2" and k1: "packed ob p1" and k2: "packed ob p2" by blast
  have t1: "threadsOk p1" using threadsOk_capStep[OF threadsOk_initialPlan p1] .
  have r1: "costed ob p1" using costed_capStep[OF costed_initialPlan[OF assms(2)] p1] .
  have c2: "concurrency p2 = (if freeRam ob < ramPerBatch p1 then 1 else concurrency p1)"
    using concurrency_scaleStep[OF assms(2) k1 t1 r1 p2] .
  have b: "basePct ?i = pct" by (simp add: initialPlan_def Let_def)
  have y: "basePct p = (if real_of_int (concurrency ?i) * pct > cap
                        then perBatchAllowed cap (concurrency ?i) else pct)"
    using basePct_capStep[OF p1] basePct_scaleStep[OF p2]
    by (simp add: p basePct_finalClamp b)
  have ge: "1 \<le> concurrency p" by (simp add: p finalClamp_ge1)
  have le2: "concurrency p \<le> concurrency p2" using finalClamp_le[OF k2] by (simp add: p)
  have first: "real_of_int (concurrency p) * basePct p
              \<le> max cap (real_of_int (concurrency p) * (1/1000))"
    if "concurrency p \<le> concurrency ?i"
    unfolding y by (rule fraction_bound[OF ge that])
  have second: "concurrency p \<le> concurrency ?i"
    if "real_of_int (concurrency ?i) * pct \<le> cap"
  proof -
    have "capStep cap ob ?i = Inr ?i" using that by (intro capStep_unchanged) (simp add: b)
    with p1 have "p1 = ?i" by simp
    with c2 packed_ge1[OF k1] le2 show ?thesis by (simp split: if_splits)
  qed
  have third: "concurrency p = 1"
    if "capStep cap ob ?i = Inr q \<and> freeRam ob < ramPerBatch q" for q
  proof -
    from that p1 have "q = p1" by simp
    with that c2 have "concurrency p2 = 1" by simp
    with le2 ge show ?thesis by linarith
  qed
  show ?thesis using first second third by blast
qed

text \<open>
  Claim C2: after the yield-cap refinement the final values satisfy
  \<open>concurrency * perBatchYieldFraction \<le> aggregateYieldCap + epsilon\<close>; the header of
  the script names the cap the \<open>safety cap for combined concurrent batches\<close>. The code
  does not keep it. The check of line 118 is made with the concurrency of the unscaled
  plan; line 137 recomputes the concurrency for the re-planned, cheaper batch, line 138
  recomputes the total, and nothing compares it with the cap again. On a host of
  1024 GB and a target with a per-thread yield of 0.003, from the default fraction
  0.02 and cap 0.20: the unscaled plan has 7 hack threads and 59 batches, the check
  shrinks the fraction to 0.2 / 59 = 1/295, the re-planned batch has 2 hack threads,
  117 batches fit, and the total is 117/295 = 0.3966, nearly twice the cap.
\<close>

theorem C2_total_above_cap:
  "initialPlan (1/50) (exampleHost (3/1000) 1024 0)
     = \<lparr> basePct = 1/50, hackThreads = 7, growThreads = 1, weaken1Threads = 1,
         weaken2Threads = 1, ramPerBatch = 343/20, concurrency = 59 \<rparr>
   \<and> perBatchAllowed (1/5) 59 = 1/295
   \<and> packedPlan (1/5) (1/50) (exampleHost (3/1000) 1024 0)
     = Inr \<lparr> basePct = 1/295, hackThreads = 2, growThreads = 1, weaken1Threads = 1,
             weaken2Threads = 1, ramPerBatch = 173/20, concurrency = 117 \<rparr>
   \<and> real_of_int 117 * (1/295) = (117/295 :: real)
   \<and> (1/5 :: real) + 1/1000 < real_of_int 117 * (1/295)"
  by (simp add: init1 packed1 perBatchAllowed_def)

subsection \<open>The shrink on the example of the specification\<close>

lemma hackThreads_initialPlan:
  "hackThreads (initialPlan pct ob) = hackThreadsFor pct (refinedPerHack ob)"
  by (simp add: initialPlan_def Let_def refinedPerHack_def split: option.splits)

lemma hackThreadsFor_example:
  "hackThreadsFor (1/50) (1/100) = 2" "hackThreadsFor (1/200) (1/100) = 1"
  by (simp_all add: hackThreadsFor_def)

lemma specExample_fields:
  "serverExists specExample = True" "perHack specExample = 1/100"
  "growthAnalyze specExample = linearGrowth" "formulasHackPercent specExample = None"
  "ramHack specExample = 10" "ramGrow specExample = 10" "ramWeaken specExample = 10"
  "freeRam specExample = 2000" "refinedPerHack specExample = 1/100"
  by (simp_all add: specExample_def freeRam_def refinedPerHack_def MIN_FREE_RAM_RATIO_def)

lemma batchRam_specExample:
  "batchRam specExample h g w1 w2 =
     real_of_int h * 10 + real_of_int g * 10 + real_of_int (w1 + w2) * 10"
  by (simp add: batchRam_def specExample_fields)

lemma spec_init: "initialPlan (1/50) specExample =
   \<lparr> basePct = 1/50, hackThreads = 2, growThreads = 1, weaken1Threads = 1,
           weaken2Threads = 1, ramPerBatch = 50, concurrency = 40 \<rparr>"
proof -
  have g: "growThreadsFor linearGrowth 2 (1/100) = 1"
    by (simp add: growThreadsFor_def linearGrowth_def Let_def)
  have w1: "weakenThreadsFor (2 * SEC_INC_HACK) = 1"
    by (rule weakenThreadsFor_small) (simp_all add: SEC_INC_HACK_def)
  have w2: "weakenThreadsFor SEC_INC_GROW = 1"
    by (rule weakenThreadsFor_small) (simp_all add: SEC_INC_GROW_def)
  show ?thesis
    by (simp add: initialPlan_def specExample_fields hackThreadsFor_example g w1 w2
        batchRam_specExample)
qed

lemma spec_cap: "capStep (1/5) specExample (initialPlan (1/50) specExample) =
   Inr \<lparr> basePct = 1/200, hackThreads = 1, growThreads = 1, weaken1Threads = 1,
           weaken2Threads = 1, ramPerBatch = 40, concurrency = 50 \<rparr>"
proof -
  have a: "perBatchAllowed (1/5) 40 = 1/200" by (simp add: perBatchAllowed_def)
  have g: "growThreadsFor linearGrowth 1 (1/100) = 1"
    by (simp add: growThreadsFor_def linearGrowth_def Let_def)
  have w1: "weakenThreadsFor SEC_INC_HACK = 1"
    by (rule weakenThreadsFor_small) (simp_all add: SEC_INC_HACK_def)
  have w2: "weakenThreadsFor SEC_INC_GROW = 1"
    by (rule weakenThreadsFor_small) (simp_all add: SEC_INC_GROW_def)
  show ?thesis
    by (simp add: spec_init capStep_def a specExample_fields hackThreadsFor_example g w1 w2
        repacked_def batchRam_specExample concurrencyFor_def)
qed

text \<open>
  Claim C4: for a target with per-thread yield 0.01, a configured fraction of 0.02, a
  cap of 0.20 and a batch cost for which 2000 free units give the unscaled concurrency
  40, the packer finds 40 * 0.02 = 0.8 above 0.20 and shrinks the fraction to
  0.20 / 40 = 0.005; the re-run planner gives one extract thread (the first plan had
  two), and the concurrency is recomputed from the cost of the new batch, which is
  smaller as soon as the replenish count did not go up.
\<close>

theorem C4_shrink_example:
  assumes y: "refinedPerHack ob = 1/100"
    and f: "freeRam ob = 2000"
    and c: "concurrency (initialPlan (1/50) ob) = 40"
    and q: "capStep (1/5) ob (initialPlan (1/50) ob) = Inr q"
  shows "hackThreads (initialPlan (1/50) ob) = 2
       \<and> real_of_int 40 * (1/50) > (1/5 :: real)
       \<and> basePct q = 1/200
       \<and> hackThreads q = 1
       \<and> ramPerBatch q = batchRam ob 1 (growThreads q) (weaken1Threads q) (weaken2Threads q)
       \<and> concurrency q = max 1 \<lfloor>2000 / ramPerBatch q\<rfloor>
       \<and> (costsOk ob \<and> 0 < ramHack ob
            \<and> growThreads q \<le> growThreads (initialPlan (1/50) ob) \<longrightarrow>
              ramPerBatch q < ramPerBatch (initialPlan (1/50) ob))"
proof -
  let ?i = "initialPlan (1/50) ob"
  have h0: "hackThreads ?i = 2"
    by (simp add: hackThreads_initialPlan y hackThreadsFor_example)
  have b: "basePct ?i = 1/50" by (simp add: initialPlan_def Let_def)
  have ex: "real_of_int (concurrency ?i) * basePct ?i > 1/5" by (simp add: c b)
  define pct :: real where "pct = perBatchAllowed (1/5) 40"
  have pct: "pct = 1/200" by (simp add: pct_def perBatchAllowed_def)
  define g where "g = growThreadsFor (growthAnalyze ob) 1 (1/100)"
  define w2 where "w2 = weakenThreadsFor (real_of_int g * SEC_INC_GROW)"
  have w1: "weakenThreadsFor (real_of_int 1 * SEC_INC_HACK) = 1"
    by (rule weakenThreadsFor_small) (simp_all add: SEC_INC_HACK_def)
  from q ex have r: "repacked ob (1/200) 1 g 1 w2 = Inr q"
    using w1 by (simp add: capStep_def Let_def c y pct[unfolded pct_def] hackThreadsFor_example
        g_def w2_def)
  note R = repacked_Inr[OF r]
  have k: "concurrency q = max 1 \<lfloor>2000 / ramPerBatch q\<rfloor>"
    using R(1) by (simp add: packed_def f)
  have cost: "ramPerBatch q = batchRam ob 1 (growThreads q) (weaken1Threads q) (weaken2Threads q)"
    using R by simp
  have smaller: "ramPerBatch q < ramPerBatch ?i"
    if co: "costsOk ob" and rh: "0 < ramHack ob" and gl: "growThreads q \<le> growThreads ?i"
  proof -
    have ci: "costed ob ?i" using costed_initialPlan[OF co] .
    have rg: "0 \<le> ramGrow ob" and rw: "0 \<le> ramWeaken ob" using co by (simp_all add: costsOk_def)
    have t: "1 \<le> weaken1Threads ?i" using threadsOk_initialPlan[of "1/50" ob] by (simp add: threadsOk_def)
    have w2i: "weaken2Threads ?i = weakenThreadsFor (real_of_int (growThreads ?i) * SEC_INC_GROW)"
      by (simp add: initialPlan_def Let_def)
    have "real_of_int (growThreads q) * SEC_INC_GROW / SEC_DEC_WEAK
        \<le> real_of_int (growThreads ?i) * SEC_INC_GROW / SEC_DEC_WEAK"
      using gl by (simp add: SEC_INC_GROW_def SEC_DEC_WEAK_def)
    then have "weakenThreadsFor (real_of_int (growThreads q) * SEC_INC_GROW)
        \<le> weakenThreadsFor (real_of_int (growThreads ?i) * SEC_INC_GROW)"
      unfolding weakenThreadsFor_def by (intro max.mono ceiling_mono) simp_all
    then have wl: "weaken2Threads q \<le> weaken2Threads ?i"
      using R by (simp add: w2i w2_def)
    have a: "real_of_int (growThreads q) * ramGrow ob \<le> real_of_int (growThreads ?i) * ramGrow ob"
      using gl rg by (intro mult_right_mono) simp_all
    have "real_of_int (weaken1Threads q + weaken2Threads q)
        \<le> real_of_int (weaken1Threads ?i + weaken2Threads ?i)"
      using wl t R by simp
    then have bb: "real_of_int (weaken1Threads q + weaken2Threads q) * ramWeaken ob
        \<le> real_of_int (weaken1Threads ?i + weaken2Threads ?i) * ramWeaken ob"
      using rw by (intro mult_right_mono)
    have "ramPerBatch q = 1 * ramHack ob + real_of_int (growThreads q) * ramGrow ob
        + real_of_int (weaken1Threads q + weaken2Threads q) * ramWeaken ob"
      using R by (simp add: batchRam_def)
    moreover have "ramPerBatch ?i = 2 * ramHack ob + real_of_int (growThreads ?i) * ramGrow ob
        + real_of_int (weaken1Threads ?i + weaken2Threads ?i) * ramWeaken ob"
      using ci by (simp add: costed_def batchRam_def h0)
    ultimately show ?thesis using a bb rh by linarith
  qed
  show ?thesis using h0 R(2,3) k cost smaller by simp
qed

theorem C4_shrink_example_witness:
  "refinedPerHack specExample = 1/100 \<and> freeRam specExample = 2000
   \<and> ramPerBatch (initialPlan (1/50) specExample) = 50
   \<and> concurrency (initialPlan (1/50) specExample) = 40
   \<and> capStep (1/5) specExample (initialPlan (1/50) specExample) =
       Inr \<lparr> basePct = 1/200, hackThreads = 1, growThreads = 1, weaken1Threads = 1,
             weaken2Threads = 1, ramPerBatch = 40, concurrency = 50 \<rparr>
   \<and> costsOk specExample \<and> 0 < ramHack specExample
   \<and> (40 :: real) < ramPerBatch (initialPlan (1/50) specExample)"
proof -
  have c: "concurrency (initialPlan (1/50) specExample) = 40" by (simp add: spec_init)
  have co: "costsOk specExample" by (simp add: costsOk_def specExample_fields)
  show ?thesis
    using C4_shrink_example[OF specExample_fields(9) specExample_fields(8) c spec_cap] co
    by (simp add: spec_init spec_cap[unfolded spec_init] specExample_fields)
qed

subsection \<open>What a pass carries to the next\<close>

lemma cycle_missing: "\<not> serverExists ob \<Longrightarrow> cycle cap pct ob = Inl TargetMissing"
  by (simp add: cycle_def packedPlan_def)

lemma runCycles_snoc:
  "carried cap pct obs = Some x \<Longrightarrow>
     runCycles cap pct (obs @ [ob]) = runCycles cap pct obs @ [cycle cap x ob]"
proof (induction obs arbitrary: pct)
  case Nil
  then show ?case by (simp add: cycle_missing)
next
  case (Cons a obs)
  then show ?case by (simp split: if_splits)
qed

lemma leftPct_unfired:
  "real_of_int (concurrency (initialPlan pct ob)) * pct \<le> cap \<Longrightarrow> leftPct cap pct ob = pct"
  by (simp add: leftPct_def initialPlan_def Let_def)

lemma carried_unfired:
  assumes "\<forall>ob \<in> set obs. serverExists ob
              \<and> real_of_int (concurrency (initialPlan pct ob)) * pct \<le> cap"
  shows "carried cap pct obs = Some pct"
  using assms by (induction obs) (simp_all add: leftPct_unfired)

lemma cycle_basePct:
  assumes "cycle cap pct ob = Inr (p, es)"
  shows "basePct p = (if real_of_int (concurrency (initialPlan pct ob)) * pct > cap
                      then perBatchAllowed cap (concurrency (initialPlan pct ob)) else pct)"
proof -
  from assms have pp: "packedPlan cap pct ob = Inr p"
    by (simp add: cycle_def split: sum.splits)
  from packedPlan_Inr[OF pp] obtain p1 p2 where
    p1: "capStep cap ob (initialPlan pct ob) = Inr p1" and p2: "scaleStep ob p1 = Inr p2"
    and p: "p = finalClamp ob p2" by blast
  have b: "basePct (initialPlan pct ob) = pct" by (simp add: initialPlan_def Let_def)
  show ?thesis
    using basePct_capStep[OF p1] basePct_scaleStep[OF p2]
    by (simp add: p basePct_finalClamp b)
qed

lemma cycle_leftPct:
  assumes "cycle cap pct ob = Inr (p, es)"
  shows "basePct p = leftPct cap pct ob"
  using cycle_basePct[OF assms] by (simp add: leftPct_def initialPlan_def Let_def)

text \<open>A pass reads the host's capacity only as its free capacity, and the clock only as the lag of its readings.\<close>

lemma sameState_batchRam: "sameState ob ob' \<Longrightarrow> batchRam ob h g w1 w2 = batchRam ob' h g w1 w2"
  by (simp add: sameState_def batchRam_def)

lemma sameState_refinedPerHack: "sameState ob ob' \<Longrightarrow> refinedPerHack ob = refinedPerHack ob'"
  by (simp add: sameState_def refinedPerHack_def split: option.splits)

lemma sameState_repacked:
  assumes "sameState ob ob'"
  shows "repacked ob pct h g w1 w2 = repacked ob' pct h g w1 w2"
proof -
  have f: "freeRam ob = freeRam ob'" using assms by (simp add: sameState_def)
  show ?thesis unfolding repacked_def f sameState_batchRam[OF assms] ..
qed

lemma sameState_initialPlan:
  assumes "sameState ob ob'"
  shows "initialPlan pct ob = initialPlan pct ob'"
proof -
  have f: "perHack ob = perHack ob'" "growthAnalyze ob = growthAnalyze ob'"
    "formulasHackPercent ob = formulasHackPercent ob'" "freeRam ob = freeRam ob'"
    using assms by (simp_all add: sameState_def)
  show ?thesis
    unfolding initialPlan_def f sameState_refinedPerHack[OF assms]
      sameState_batchRam[OF assms] ..
qed

lemma sameState_capStep:
  assumes "sameState ob ob'"
  shows "capStep cap ob p = capStep cap ob' p"
proof -
  have f: "growthAnalyze ob = growthAnalyze ob'" using assms by (simp add: sameState_def)
  show ?thesis
    unfolding capStep_def f sameState_refinedPerHack[OF assms] sameState_repacked[OF assms] ..
qed

lemma sameState_scaleStep:
  assumes "sameState ob ob'"
  shows "scaleStep ob p = scaleStep ob' p"
proof -
  have f: "freeRam ob = freeRam ob'" using assms by (simp add: sameState_def)
  show ?thesis unfolding scaleStep_def f sameState_repacked[OF assms] ..
qed

lemma sameState_finalClamp: "sameState ob ob' \<Longrightarrow> finalClamp ob p = finalClamp ob' p"
  by (simp add: finalClamp_def sameState_def)

lemma sameState_packedPlan:
  assumes "sameState ob ob'"
  shows "packedPlan cap pct ob = packedPlan cap pct ob'"
proof -
  have f: "serverExists ob = serverExists ob'" using assms by (simp add: sameState_def)
  have c: "scaleStep ob = scaleStep ob'" "finalClamp ob = finalClamp ob'"
    by (rule ext, rule sameState_scaleStep[OF assms])
       (rule ext, rule sameState_finalClamp[OF assms])
  show ?thesis
    unfolding packedPlan_def f sameState_initialPlan[OF assms] sameState_capStep[OF assms] c ..
qed

lemma sameState_leftPct: "sameState ob ob' \<Longrightarrow> leftPct cap pct ob = leftPct cap pct ob'"
  by (simp add: leftPct_def sameState_initialPlan[of ob ob'])

lemma sameState_longest: "sameState ob ob' \<Longrightarrow> longest ob = longest ob'"
  by (simp add: longest_def sameState_def)

lemma delays_lag:
  "hackStartDelay ob (batchT ob c b) t
     = max 0 (round (lead ob c b 0 (hackTime ob) - real_of_int (t - now ob)))"
  "weaken1StartDelay ob (batchT ob c b) t
     = max 0 (round (lead ob c b 1 (weakenTime ob) - real_of_int (t - now ob)))"
  "growStartDelay ob (batchT ob c b) t
     = max 0 (round (lead ob c b 2 (growTime ob) - real_of_int (t - now ob)))"
  "weaken2StartDelay ob (batchT ob c b) t
     = max 0 (round (lead ob c b 3 (weakenTime ob) - real_of_int (t - now ob)))"
proof -
  have "(batchT ob c b - hackTime ob) - real_of_int t
      = lead ob c b 0 (hackTime ob) - real_of_int (t - now ob)"
    by (simp add: batchT_def baseT_def lead_def)
  then show "hackStartDelay ob (batchT ob c b) t
     = max 0 (round (lead ob c b 0 (hackTime ob) - real_of_int (t - now ob)))"
    by (simp only: hackStartDelay_def)
  have "(batchT ob c b + real_of_int DELTA - weakenTime ob) - real_of_int t
      = lead ob c b 1 (weakenTime ob) - real_of_int (t - now ob)"
    by (simp add: batchT_def baseT_def lead_def)
  then show "weaken1StartDelay ob (batchT ob c b) t
     = max 0 (round (lead ob c b 1 (weakenTime ob) - real_of_int (t - now ob)))"
    by (simp only: weaken1StartDelay_def)
  have "(batchT ob c b + real_of_int (2 * DELTA) - growTime ob) - real_of_int t
      = lead ob c b 2 (growTime ob) - real_of_int (t - now ob)"
    by (simp add: batchT_def baseT_def lead_def)
  then show "growStartDelay ob (batchT ob c b) t
     = max 0 (round (lead ob c b 2 (growTime ob) - real_of_int (t - now ob)))"
    by (simp only: growStartDelay_def)
  have "(batchT ob c b + real_of_int (3 * DELTA) - weakenTime ob) - real_of_int t
      = lead ob c b 3 (weakenTime ob) - real_of_int (t - now ob)"
    by (simp add: batchT_def baseT_def lead_def)
  then show "weaken2StartDelay ob (batchT ob c b) t
     = max 0 (round (lead ob c b 3 (weakenTime ob) - real_of_int (t - now ob)))"
    by (simp only: weaken2StartDelay_def)
qed

lemma sameState_schedule:
  assumes s: "sameState ob ob'" and l: "sameLag ob ob'"
  shows "schedule ob p = schedule ob' p"
proof -
  have t: "hackTime ob = hackTime ob'" "growTime ob = growTime ob'"
    "weakenTime ob = weakenTime ob'"
    using s by (simp_all add: sameState_def)
  have ld: "lead ob c b k d = lead ob' c b k d" for c b k d
    by (simp add: lead_def sameState_longest[OF s])
  have lag: "nowAt ob b k - now ob = nowAt ob' b k - now ob'" for b k
    using l by (simp add: sameLag_def)
  have "batchEntries ob p b = batchEntries ob' p b" for b
    unfolding batchEntries_def Let_def delays_lag ld lag t ..
  then have "batchEntries ob p = batchEntries ob' p" by (rule ext)
  then show ?thesis by (simp only: schedule_def)
qed

lemma sameState_cycle:
  assumes "sameState ob ob'" "sameLag ob ob'"
  shows "cycle cap pct ob = cycle cap pct ob'"
proof -
  have s: "schedule ob = schedule ob'" by (rule ext) (rule sameState_schedule[OF assms])
  show ?thesis unfolding cycle_def s sameState_packedPlan[OF assms(1)] ..
qed

lemma packed1b: "packedPlan (1/5) (1/295) (exampleHost (3/1000) 1024 0)
   = Inr \<lparr> basePct = 1/585, hackThreads = 1, growThreads = 1, weaken1Threads = 1,
           weaken2Threads = 1, ramPerBatch = 139/20, concurrency = 145 \<rparr>"
proof -
  have h: "hackThreadsFor (1/295) (3/1000) = 2" by (simp add: hackThreadsFor_def)
  have h': "hackThreadsFor (1/585) (3/1000) = 1" by (simp add: hackThreadsFor_def)
  have g: "growThreadsFor linearGrowth 2 (3/1000) = 1"
    by (simp add: growThreadsFor_def linearGrowth_def Let_def)
  have g': "growThreadsFor linearGrowth 1 (3/1000) = 1"
    by (simp add: growThreadsFor_def linearGrowth_def Let_def)
  have w1: "weakenThreadsFor (2 * SEC_INC_HACK) = 1"
    by (rule weakenThreadsFor_small) (simp_all add: SEC_INC_HACK_def)
  have w1': "weakenThreadsFor SEC_INC_HACK = 1"
    by (rule weakenThreadsFor_small) (simp_all add: SEC_INC_HACK_def)
  have i: "initialPlan (1/295) (exampleHost (3/1000) 1024 0) =
     \<lparr> basePct = 1/295, hackThreads = 2, growThreads = 1, weaken1Threads = 1,
       weaken2Threads = 1, ramPerBatch = 173/20, concurrency = 117 \<rparr>"
    by (simp add: initialPlan_def exampleHost_fields h g w1 w2 batchRam_exampleHost free1)
  have a: "perBatchAllowed (1/5) 117 = 1/585" by (simp add: perBatchAllowed_def)
  have c: "capStep (1/5) (exampleHost (3/1000) 1024 0)
      \<lparr> basePct = 1/295, hackThreads = 2, growThreads = 1, weaken1Threads = 1,
        weaken2Threads = 1, ramPerBatch = 173/20, concurrency = 117 \<rparr>
     = Inr \<lparr> basePct = 1/585, hackThreads = 1, growThreads = 1, weaken1Threads = 1,
        weaken2Threads = 1, ramPerBatch = 139/20, concurrency = 145 \<rparr>"
    by (simp add: capStep_def a h' g' w1' w2 refinedPerHack_exampleHost exampleHost_fields
        repacked_def batchRam_exampleHost free1 concurrencyFor_def)
  have s: "scaleStep (exampleHost (3/1000) 1024 0)
      \<lparr> basePct = 1/585, hackThreads = 1, growThreads = 1, weaken1Threads = 1,
        weaken2Threads = 1, ramPerBatch = 139/20, concurrency = 145 \<rparr>
     = Inr \<lparr> basePct = 1/585, hackThreads = 1, growThreads = 1, weaken1Threads = 1,
        weaken2Threads = 1, ramPerBatch = 139/20, concurrency = 145 \<rparr>"
    by (simp add: scaleStep_def free1)
  show ?thesis
    by (simp add: packedPlan_def exampleHost_fields i c s finalClamp_def free1)
qed

lemma laterHost_same:
  "sameState (exampleHost (3/1000) 1024 0) laterHost"
  "sameLag (exampleHost (3/1000) 1024 0) laterHost"
  by (simp_all add: sameState_def sameLag_def laterHost_def exampleHost_def freeRam_def
      MIN_FREE_RAM_RATIO_def)

lemma left1: "leftPct (1/5) (1/50) (exampleHost (3/1000) 1024 0) = 1/295"
  by (simp add: leftPct_def init1 perBatchAllowed_def)

text \<open>A pass that divides by zero, and the fraction it leaves.\<close>

lemma missingScripts_fields:
  "serverExists missingScripts" "perHack missingScripts = 3/1000"
  "growthAnalyze missingScripts = linearGrowth" "formulasHackPercent missingScripts = None"
  "freeRam missingScripts = 25344/25" "batchRam missingScripts h g a b = 0"
  "refinedPerHack missingScripts = 3/1000"
  by (simp_all add: missingScripts_def exampleHost_def freeRam_def batchRam_def
      refinedPerHack_def MIN_FREE_RAM_RATIO_def)

lemma initMissing: "initialPlan (1/50) missingScripts =
   \<lparr> basePct = 1/50, hackThreads = 7, growThreads = 1, weaken1Threads = 1,
           weaken2Threads = 1, ramPerBatch = 1, concurrency = 1013 \<rparr>"
  by (simp add: initialPlan_def missingScripts_fields h1 g1 w1 w2)

lemma leftMissing: "leftPct (1/5) (1/50) missingScripts = 1/1000"
  by (simp add: leftPct_def initMissing perBatchAllowed_def)

lemma cycleMissing: "cycle (1/5) (1/50) missingScripts = Inl NonFinite"
proof -
  have a: "perBatchAllowed (1/5) 1013 = 1/1000" by (simp add: perBatchAllowed_def)
  have "capStep (1/5) missingScripts
      \<lparr> basePct = 1/50, hackThreads = 7, growThreads = 1, weaken1Threads = 1,
        weaken2Threads = 1, ramPerBatch = 1, concurrency = 1013 \<rparr> = Inl NonFinite"
    by (simp add: capStep_def a Let_def repacked_def missingScripts_fields concurrencyFor_def)
  then show ?thesis
    by (simp add: cycle_def packedPlan_def missingScripts_fields initMissing)
qed

text \<open>The first call of a pass, and its delay on the concrete host without and with a lag.\<close>

lemma hd_schedule:
  assumes "1 \<le> concurrency p" "0 < hackThreads p"
  shows "hd (schedule ob p) = \<lparr> script = HackJs, threads = hackThreads p,
      delay = hackStartDelay ob (batchT ob (concurrency p) 0) (nowAt ob 0 0) \<rparr>"
proof -
  have "[0 ..< nat (concurrency p)] = 0 # [1 ..< nat (concurrency p)]"
    using assms(1) by (simp add: upt_conv_Cons)
  then have "schedule ob p
      = batchEntries ob p 0 @ concat (map (batchEntries ob p) [1 ..< nat (concurrency p)])"
    by (simp add: schedule_def)
  moreover have "hd (batchEntries ob p 0 @ r) = \<lparr> script = HackJs, threads = hackThreads p,
      delay = hackStartDelay ob (batchT ob (concurrency p) 0) (nowAt ob 0 0) \<rparr>" for r
    using assms(2) by (simp add: batchEntries_def Let_def)
  ultimately show ?thesis by simp
qed

lemma laggedHost_same: "sameState (exampleHost (3/1000) 1024 0) laggedHost"
  by (simp add: sameState_def laggedHost_def exampleHost_def freeRam_def)

lemma firstDelay:
  "hackStartDelay (exampleHost (3/1000) 1024 0) (batchT (exampleHost (3/1000) 1024 0) 117 0)
     (nowAt (exampleHost (3/1000) 1024 0) 0 0) = 4400"
  "hackStartDelay laggedHost (batchT laggedHost 117 0) (nowAt laggedHost 0 0) = 4399"
proof -
  have l: "lead (exampleHost (3/1000) 1024 0) 117 0 0 (4001/4) = 17599/4"
    "lead laggedHost 117 0 0 (4001/4) = 17599/4"
    by (simp_all add: lead_def longest_def laggedHost_def exampleHost_def BUFFER_def
        batchOffset_def)
  have t: "hackTime (exampleHost (3/1000) 1024 0) = 4001/4" "hackTime laggedHost = 4001/4"
    "nowAt (exampleHost (3/1000) 1024 0) 0 0 - now (exampleHost (3/1000) 1024 0) = 0"
    "nowAt laggedHost 0 0 - now laggedHost = 1"
    by (simp_all add: laggedHost_def exampleHost_def)
  have r: "round (17599/4 - real_of_int 0) = 4400" "round (17599/4 - real_of_int 1) = 4399"
    by (simp_all add: round_def)
  show "hackStartDelay (exampleHost (3/1000) 1024 0) (batchT (exampleHost (3/1000) 1024 0) 117 0)
     (nowAt (exampleHost (3/1000) 1024 0) 0 0) = 4400"
    by (simp only: delays_lag t l r max_def) simp
  show "hackStartDelay laggedHost (batchT laggedHost 117 0) (nowAt laggedHost 0 0) = 4399"
    by (simp only: delays_lag t l r max_def) simp
qed

lemma packed1_lagged: "packedPlan (1/5) (1/50) laggedHost
   = Inr \<lparr> basePct = 1/295, hackThreads = 2, growThreads = 1, weaken1Threads = 1,
           weaken2Threads = 1, ramPerBatch = 173/20, concurrency = 117 \<rparr>"
  using sameState_packedPlan[OF laggedHost_same, of "1/5" "1/50"] by (simp add: packed1)

text \<open>
  Claim C5, as stated: two passes that observe identical target parameters and
  identical host free capacity emit the same stage counts, concurrency and delays,
  whatever earlier passes computed. The variable \<open>BASE_HACK_PCT\<close> is declared outside
  the loop and overwritten by the yield-cap check, so the second of two passes over
  the same observation starts from 1/295 instead of 1/50 and emits one extract thread
  and 145 batches where the first emitted two threads and 117 batches. And each delay
  is computed from a reading of \<open>Date.now()\<close> of its own: of two first passes over the
  same state, the one whose clock is a millisecond on emits 4399 for the first delay
  where the other emits 4400.
\<close>

theorem C5_counterexample:
  "map (map_sum id fst)
     (runCycles (1/5) (1/50) [exampleHost (3/1000) 1024 0, exampleHost (3/1000) 1024 0])
   = [ Inr \<lparr> basePct = 1/295, hackThreads = 2, growThreads = 1, weaken1Threads = 1,
             weaken2Threads = 1, ramPerBatch = 173/20, concurrency = 117 \<rparr>,
       Inr \<lparr> basePct = 1/585, hackThreads = 1, growThreads = 1, weaken1Threads = 1,
             weaken2Threads = 1, ramPerBatch = 139/20, concurrency = 145 \<rparr> ]
   \<and> sameState (exampleHost (3/1000) 1024 0) laggedHost
   \<and> map_sum id (\<lambda>r. delay (hd (snd r))) (cycle (1/5) (1/50) (exampleHost (3/1000) 1024 0))
       = Inr 4400
   \<and> map_sum id (\<lambda>r. delay (hd (snd r))) (cycle (1/5) (1/50) laggedHost) = Inr 4399"
  by (simp add: cycle_def packed1 packed1b left1 exampleHost_fields laggedHost_same
      packed1_lagged hd_schedule firstDelay)

text \<open>
  Claim C5, amended: a pass reads the target parameters, the script costs, the host's
  free capacity (not its total and used capacity apart), the lag of its clock readings
  (not the clock), and one value carried from the earlier passes, the per-batch yield
  fraction. So two passes that observe identical target parameters and identical free
  capacity and start from the same carried fraction emit the same stage counts and
  concurrency and leave the same fraction, whatever their histories were; and the same
  delays when their clock readings are equally late. A pass whose yield-cap check
  does not fire leaves the fraction as it was: after a history of such passes, a pass
  emits what a first pass emits.
\<close>

theorem C5_carried_fraction:
  assumes "sameState ob ob'"
  shows "packedPlan cap x ob = packedPlan cap x ob'
   \<and> leftPct cap x ob = leftPct cap x ob'
   \<and> (sameLag ob ob' \<longrightarrow> cycle cap x ob = cycle cap x ob')
   \<and> (sameLag ob ob' \<and> carried cap pct obs = Some x \<and> carried cap pct' obs' = Some x \<longrightarrow>
        last (runCycles cap pct (obs @ [ob])) = last (runCycles cap pct' (obs' @ [ob'])))
   \<and> (sameLag ob ob' \<and> (\<forall>a \<in> set hist. serverExists a
            \<and> real_of_int (concurrency (initialPlan y a)) * y \<le> cap) \<longrightarrow>
        carried cap y hist = Some y
        \<and> last (runCycles cap y (hist @ [ob])) = cycle cap y ob')
   \<and> (cycle cap z ob0 = Inr (p, es)
        \<and> real_of_int (concurrency (initialPlan z ob0)) * z \<le> cap \<longrightarrow> basePct p = z)"
proof -
  have same: "cycle cap q ob = cycle cap q ob'" if "sameLag ob ob'" for q
    by (rule sameState_cycle[OF assms that])
  have second: "last (runCycles cap pct (obs @ [ob])) = last (runCycles cap pct' (obs' @ [ob']))"
    if "sameLag ob ob' \<and> carried cap pct obs = Some x \<and> carried cap pct' obs' = Some x"
    using that by (simp add: runCycles_snoc same)
  have third: "carried cap y hist = Some y
        \<and> last (runCycles cap y (hist @ [ob])) = cycle cap y ob'"
    if "sameLag ob ob' \<and> (\<forall>a \<in> set hist. serverExists a
          \<and> real_of_int (concurrency (initialPlan y a)) * y \<le> cap)"
  proof -
    have "carried cap y hist = Some y" using that by (intro carried_unfired) simp
    then show ?thesis using that by (simp add: runCycles_snoc same)
  qed
  have fourth: "basePct p = z"
    if "cycle cap z ob0 = Inr (p, es)
        \<and> real_of_int (concurrency (initialPlan z ob0)) * z \<le> cap"
    using that cycle_basePct[of cap z ob0 p es] by simp
  show ?thesis
    using same sameState_packedPlan[OF assms] sameState_leftPct[OF assms] second third fourth
    by blast
qed

theorem C5_carried_fraction_witness:
  "sameState (exampleHost (3/1000) 1024 0) laterHost
   \<and> sameLag (exampleHost (3/1000) 1024 0) laterHost
   \<and> hostMaxRam (exampleHost (3/1000) 1024 0) \<noteq> hostMaxRam laterHost
   \<and> now (exampleHost (3/1000) 1024 0) \<noteq> now laterHost
   \<and> packedPlan (1/5) (1/295) (exampleHost (3/1000) 1024 0) = packedPlan (1/5) (1/295) laterHost
   \<and> cycle (1/5) (1/295) (exampleHost (3/1000) 1024 0) = cycle (1/5) (1/295) laterHost
   \<and> leftPct (1/5) (1/295) (exampleHost (3/1000) 1024 0) = leftPct (1/5) (1/295) laterHost
   \<and> carried (1/5) (1/50) [exampleHost (3/1000) 1024 0] = Some (1/295)
   \<and> carried (1/5) (1/295) [] = Some (1/295)
   \<and> last (runCycles (1/5) (1/50) ([exampleHost (3/1000) 1024 0] @ [exampleHost (3/1000) 1024 0]))
       = last (runCycles (1/5) (1/295) ([] @ [laterHost]))
   \<and> serverExists (exampleHost (1/20) 8 8)
   \<and> real_of_int (concurrency (initialPlan (1/50) (exampleHost (1/20) 8 8))) * (1/50) \<le> 1/5
   \<and> carried (1/5) (1/50) [exampleHost (1/20) 8 8] = Some (1/50)
   \<and> last (runCycles (1/5) (1/50) ([exampleHost (1/20) 8 8] @ [exampleHost (3/1000) 1024 0]))
       = cycle (1/5) (1/50) laterHost
   \<and> (\<exists>p es. cycle (1/5) (1/50) (exampleHost (1/20) 8 8) = Inr (p, es) \<and> basePct p = 1/50)
   \<and> cycle (1/5) (1/50) missingScripts = Inl NonFinite
   \<and> carried (1/5) (1/50) [missingScripts] = Some (1/1000)
   \<and> last (runCycles (1/5) (1/50) ([missingScripts] @ [exampleHost (3/1000) 1024 0]))
       = last (runCycles (1/5) (1/1000) ([] @ [laterHost]))"
proof -
  let ?B = "exampleHost (3/1000) 1024 0" and ?A = "exampleHost (1/20) 8 8"
  let ?P = "\<lparr> basePct = 1/50, hackThreads = 1, growThreads = 1, weaken1Threads = 1,
           weaken2Threads = 1, ramPerBatch = 139/20, concurrency = 1 \<rparr>"
  have c1: "carried (1/5) (1/50) [?B] = Some (1/295)"
    by (simp add: left1 exampleHost_fields)
  have c2: "carried (1/5) (1/295) [] = Some (1/295)" by simp
  have cy: "cycle (1/5) (1/50) ?A = Inr (?P, schedule ?A ?P)" by (simp add: cycle_def packed0)
  have ex: "serverExists ?A" by (simp add: exampleHost_fields)
  have le: "real_of_int (concurrency (initialPlan (1/50) ?A)) * (1/50) \<le> 1/5"
    by (simp add: init0)
  have h: "\<forall>a \<in> set [?A]. serverExists a
      \<and> real_of_int (concurrency (initialPlan (1/50) a)) * (1/50) \<le> 1/5"
    using ex le by simp
  have d: "hostMaxRam ?B \<noteq> hostMaxRam laterHost" "now ?B \<noteq> now laterHost"
    by (simp_all add: laterHost_def exampleHost_def)
  have c3: "carried (1/5) (1/50) [missingScripts] = Some (1/1000)"
    by (simp add: leftMissing missingScripts_fields)
  have c4: "carried (1/5) (1/1000) [] = Some (1/1000)" by simp
  have first: "packedPlan (1/5) (1/295) ?B = packedPlan (1/5) (1/295) laterHost
     \<and> cycle (1/5) (1/295) ?B = cycle (1/5) (1/295) laterHost
     \<and> leftPct (1/5) (1/295) ?B = leftPct (1/5) (1/295) laterHost
     \<and> last (runCycles (1/5) (1/50) ([?B] @ [?B])) = last (runCycles (1/5) (1/295) ([] @ [laterHost]))
     \<and> carried (1/5) (1/50) [?A] = Some (1/50)
     \<and> last (runCycles (1/5) (1/50) ([?A] @ [?B])) = cycle (1/5) (1/50) laterHost
     \<and> basePct ?P = 1/50"
    using C5_carried_fraction[OF laterHost_same(1), of "1/5" "1/295" "1/50" "[?B]" "1/295" "[]"
      "[?A]" "1/50" "1/50" ?A ?P "schedule ?A ?P"] c1 c2 cy le h laterHost_same(2)
    by blast
  have second: "last (runCycles (1/5) (1/50) ([missingScripts] @ [?B]))
       = last (runCycles (1/5) (1/1000) ([] @ [laterHost]))"
    using C5_carried_fraction[OF laterHost_same(1), of "1/5" "1/1000" "1/50" "[missingScripts]"
      "1/1000" "[]"] c3 c4 laterHost_same(2)
    by blast
  from first second c1 c2 c3 cy ex le d laterHost_same cycleMissing
  show ?thesis by blast
qed

subsection \<open>Degenerate yields\<close>

lemma hack_scheduled:
  assumes "packedPlan cap pct ob = Inr p"
  shows "HackJs \<in> script ` set (schedule ob p)"
proof -
  have t: "threadsOk p" using packedPlan_threadsOk[OF assms] .
  have c: "1 \<le> concurrency p" using packedPlan_concurrency_ge1[OF assms] .
  then have "0 \<in> set [0 ..< nat (concurrency p)]" by simp
  moreover have "\<lparr> script = HackJs, threads = hackThreads p,
      delay = hackStartDelay ob (batchT ob (concurrency p) 0) (nowAt ob 0 0) \<rparr>
      \<in> set (batchEntries ob p 0)"
    using t by (simp add: batchEntries_def Let_def threadsOk_def)
  ultimately have "\<lparr> script = HackJs, threads = hackThreads p,
      delay = hackStartDelay ob (batchT ob (concurrency p) 0) (nowAt ob 0 0) \<rparr>
      \<in> set (schedule ob p)"
    unfolding schedule_def by (simp only: set_concat set_map) blast
  then show ?thesis by force
qed

lemma packedZero: "packedPlan (1/5) (1/50) (exampleHost 0 1024 0)
   = Inr \<lparr> basePct = 1/50, hackThreads = 200000000, growThreads = 1,
           weaken1Threads = 8000000, weaken2Threads = 1, ramPerBatch = 708000007/2,
           concurrency = 1 \<rparr>"
proof -
  have h: "hackThreadsFor (1/50) 0 = 20000000000" by (simp add: hackThreadsFor_def)
  have g: "growThreadsFor linearGrowth 20000000000 0 = 1"
    by (simp add: growThreadsFor_def linearGrowth_def Let_def)
  have w1: "weakenThreadsFor (20000000000 * SEC_INC_HACK) = 800000000"
    by (simp add: weakenThreadsFor_def SEC_INC_HACK_def SEC_DEC_WEAK_def)
  have i: "initialPlan (1/50) (exampleHost 0 1024 0) =
     \<lparr> basePct = 1/50, hackThreads = 20000000000, growThreads = 1,
       weaken1Threads = 800000000, weaken2Threads = 1, ramPerBatch = 70800000007/2,
       concurrency = 1 \<rparr>"
    by (simp add: initialPlan_def exampleHost_fields h g w1 w2 batchRam_exampleHost free1)
  have c: "capStep (1/5) (exampleHost 0 1024 0)
      \<lparr> basePct = 1/50, hackThreads = 20000000000, growThreads = 1,
        weaken1Threads = 800000000, weaken2Threads = 1, ramPerBatch = 70800000007/2,
        concurrency = 1 \<rparr>
     = Inr \<lparr> basePct = 1/50, hackThreads = 20000000000, growThreads = 1,
        weaken1Threads = 800000000, weaken2Threads = 1, ramPerBatch = 70800000007/2,
        concurrency = 1 \<rparr>"
    by (simp add: capStep_def)
  have s: "scaleStep (exampleHost 0 1024 0)
      \<lparr> basePct = 1/50, hackThreads = 20000000000, growThreads = 1,
        weaken1Threads = 800000000, weaken2Threads = 1, ramPerBatch = 70800000007/2,
        concurrency = 1 \<rparr>
     = Inr \<lparr> basePct = 1/50, hackThreads = 200000000, growThreads = 1,
        weaken1Threads = 8000000, weaken2Threads = 1, ramPerBatch = 708000007/2,
        concurrency = 1 \<rparr>"
    by (simp add: scaleStep_def free1 scaleRound_def repacked_def batchRam_exampleHost
        concurrencyFor_def)
  show ?thesis
    by (simp add: packedPlan_def exampleHost_fields i c s finalClamp_def free1)
qed

text \<open>
  Claim C7, as stated: for a per-thread yield at or near zero the batch planner treats
  the target as one that cannot be extracted in this pass and puts a defensive action
  in the place of the extraction. With a yield of zero the planner divides by the floor
  \<open>1e-12\<close> instead, plans 20 000 000 000 extract threads, scales them down to
  200 000 000, and dispatches the extract stage with the three others.
\<close>

theorem C7_counterexample:
  "perHack (exampleHost 0 1024 0) = 0
   \<and> packedPlan (1/5) (1/50) (exampleHost 0 1024 0)
       = Inr \<lparr> basePct = 1/50, hackThreads = 200000000, growThreads = 1,
               weaken1Threads = 8000000, weaken2Threads = 1, ramPerBatch = 708000007/2,
               concurrency = 1 \<rparr>
   \<and> map script (schedule (exampleHost 0 1024 0)
         \<lparr> basePct = 1/50, hackThreads = 200000000, growThreads = 1,
           weaken1Threads = 8000000, weaken2Threads = 1, ramPerBatch = 708000007/2,
           concurrency = 1 \<rparr>)
       = [HackJs, WeakenJs, GrowJs, WeakenJs]"
  by (simp add: packedZero exampleHost_fields schedule_def batchEntries_def Let_def)

text \<open>
  Claim C7, amended: neither script raises on a degenerate yield. The multi-thread
  worker (worker.js) treats a per-thread yield or a success probability that is zero or
  negative as "cannot hack now": it never hacks in that pass, and once its security
  and money priorities are met it weakens. The host batcher has no such branch and
  does not read the success probability: it floors the per-thread yield at \<open>1e-12\<close>,
  so that a yield of zero or less gives \<open>max 1 \<lceil>fraction * 10^12\<rceil>\<close> extract threads
  in the unscaled plan, and every pass that returns dispatches an extract stage of at
  least one thread.
\<close>

theorem C7_degenerate_inputs:
  "(targetExists w \<and> (perThreadSteal w \<le> 0 \<or> hackChance w \<le> 0) \<longrightarrow>
      (workerAction w = Some Weaken \<or> workerAction w = Some Grow)
      \<and> (sec w \<le> minSec w + 2 \<and> maxMoney w * (85/100) \<le> money w \<longrightarrow>
            workerAction w = Some Weaken))
   \<and> (serverExists ob \<and> costsOk ob \<longrightarrow>
      (\<exists>p es. cycle cap pct ob = Inr (p, es) \<and> 1 \<le> hackThreads p
         \<and> HackJs \<in> script ` set es))
   \<and> (perHack ob \<le> 0 \<and> formulasHackPercent ob = None \<longrightarrow>
      hackThreads (initialPlan pct ob) = max 1 \<lceil>pct * 10^12\<rceil>)"
proof -
  have worker: "(workerAction w = Some Weaken \<or> workerAction w = Some Grow)
      \<and> (sec w \<le> minSec w + 2 \<and> maxMoney w * (85/100) \<le> money w \<longrightarrow>
            workerAction w = Some Weaken)"
    if "targetExists w \<and> (perThreadSteal w \<le> 0 \<or> hackChance w \<le> 0)"
    using that by (auto simp: workerAction_def)
  have batcher: "\<exists>p es. cycle cap pct ob = Inr (p, es) \<and> 1 \<le> hackThreads p
         \<and> HackJs \<in> script ` set es"
    if "serverExists ob \<and> costsOk ob"
  proof -
    from that obtain p where p: "packedPlan cap pct ob = Inr p"
      using packedPlan_total by blast
    have "1 \<le> hackThreads p" using packedPlan_threadsOk[OF p] by (simp add: threadsOk_def)
    moreover have "cycle cap pct ob = Inr (p, schedule ob p)" by (simp add: cycle_def p)
    ultimately show ?thesis using hack_scheduled[OF p] by blast
  qed
  have clamp: "hackThreads (initialPlan pct ob) = max 1 \<lceil>pct * 10^12\<rceil>"
    if "perHack ob \<le> 0 \<and> formulasHackPercent ob = None"
  proof -
    from that have "max (1 / 10^12) (perHack ob) = 1 / 10^12" by simp
    then show ?thesis using that by (simp add: initialPlan_def Let_def hackThreadsFor_def)
  qed
  show ?thesis using worker batcher clamp by blast
qed

theorem C7_degenerate_inputs_witness:
  "targetExists degenerateTarget \<and> perThreadSteal degenerateTarget \<le> 0
   \<and> sec degenerateTarget \<le> minSec degenerateTarget + 2
   \<and> maxMoney degenerateTarget * (85/100) \<le> money degenerateTarget
   \<and> workerAction degenerateTarget = Some Weaken
   \<and> serverExists (exampleHost 0 1024 0) \<and> costsOk (exampleHost 0 1024 0)
   \<and> perHack (exampleHost 0 1024 0) \<le> 0 \<and> formulasHackPercent (exampleHost 0 1024 0) = None
   \<and> hackThreads (initialPlan (1/50) (exampleHost 0 1024 0)) = 20000000000
   \<and> (\<exists>p es. cycle (1/5) (1/50) (exampleHost 0 1024 0) = Inr (p, es) \<and> 1 \<le> hackThreads p
         \<and> HackJs \<in> script ` set es)"
proof -
  have w: "targetExists degenerateTarget \<and> (perThreadSteal degenerateTarget \<le> 0
      \<or> hackChance degenerateTarget \<le> 0)"
    "sec degenerateTarget \<le> minSec degenerateTarget + 2
      \<and> maxMoney degenerateTarget * (85/100) \<le> money degenerateTarget"
    by (simp_all add: degenerateTarget_def)
  have b: "serverExists (exampleHost 0 1024 0) \<and> costsOk (exampleHost 0 1024 0)"
    "perHack (exampleHost 0 1024 0) \<le> 0 \<and> formulasHackPercent (exampleHost 0 1024 0) = None"
    by (simp_all add: exampleHost_fields costsOk_exampleHost)
  have n: "max 1 \<lceil>(1/50 :: real) * 10^12\<rceil> = 20000000000" by simp
  from C7_degenerate_inputs[of degenerateTarget "exampleHost 0 1024 0" "1/5" "1/50"] w b n
  show ?thesis by (simp add: degenerateTarget_def)
qed

subsection \<open>Configuration\<close>

text \<open>
  Claim C10, as stated: the effective configuration is always positive and clamped.
  A negative argument is truthy, so it is not replaced by the default, and the minimum
  with 0.25 leaves it negative.
\<close>

theorem C10_counterexample:
  "BASE_HACK_PCT (Num (- 1/10)) = Num (- 1/10) \<and> \<not> isPositive (BASE_HACK_PCT (Num (- 1/10)))"
  by (simp add: BASE_HACK_PCT_def orDefault_def)

text \<open>
  Claim C10, amended: an argument that is zero or not a number is replaced by the
  default (0.02 for the per-batch fraction, 0.20 for the cap), so the effective value is
  never zero and never \<open>NaN\<close>; it never exceeds 0.25 (0.5 for the cap); it is positive
  exactly when the argument is positive, zero or not a number. A negative argument is
  passed on unchanged.
\<close>

theorem C10_effective_configuration:
  "(\<not> truthy a1 \<longrightarrow> BASE_HACK_PCT a1 = Num (2/100))
   \<and> BASE_HACK_PCT a1 \<noteq> Num 0 \<and> BASE_HACK_PCT a1 \<noteq> NaN
   \<and> atMost (BASE_HACK_PCT a1) (25/100)
   \<and> (isPositive (BASE_HACK_PCT a1) \<longleftrightarrow> \<not> truthy a1 \<or> isPositive a1)
   \<and> (\<not> truthy a2 \<longrightarrow> MAX_TOTAL_HACK_PCT a2 = Num (20/100))
   \<and> MAX_TOTAL_HACK_PCT a2 \<noteq> Num 0 \<and> MAX_TOTAL_HACK_PCT a2 \<noteq> NaN
   \<and> atMost (MAX_TOTAL_HACK_PCT a2) (5/10)
   \<and> (isPositive (MAX_TOTAL_HACK_PCT a2) \<longleftrightarrow> \<not> truthy a2 \<or> isPositive a2)"
proof -
  have b: "(\<not> truthy a1 \<longrightarrow> BASE_HACK_PCT a1 = Num (2/100))
   \<and> BASE_HACK_PCT a1 \<noteq> Num 0 \<and> BASE_HACK_PCT a1 \<noteq> NaN
   \<and> atMost (BASE_HACK_PCT a1) (25/100)
   \<and> (isPositive (BASE_HACK_PCT a1) \<longleftrightarrow> \<not> truthy a1 \<or> isPositive a1)"
    by (cases a1) (auto simp: BASE_HACK_PCT_def orDefault_def min_def)
  have m: "(\<not> truthy a2 \<longrightarrow> MAX_TOTAL_HACK_PCT a2 = Num (20/100))
   \<and> MAX_TOTAL_HACK_PCT a2 \<noteq> Num 0 \<and> MAX_TOTAL_HACK_PCT a2 \<noteq> NaN
   \<and> atMost (MAX_TOTAL_HACK_PCT a2) (5/10)
   \<and> (isPositive (MAX_TOTAL_HACK_PCT a2) \<longleftrightarrow> \<not> truthy a2 \<or> isPositive a2)"
    by (cases a2) (auto simp: MAX_TOTAL_HACK_PCT_def orDefault_def min_def)
  show ?thesis using b m by blast
qed

theorem C10_effective_configuration_witness:
  "\<not> truthy (Num 0) \<and> BASE_HACK_PCT (Num 0) = Num (2/100)
   \<and> \<not> truthy NaN \<and> MAX_TOTAL_HACK_PCT NaN = Num (20/100)
   \<and> isPositive (BASE_HACK_PCT (Num 0)) \<and> isPositive (MAX_TOTAL_HACK_PCT NaN)"
  using C10_effective_configuration[of "Num 0" NaN] by simp

section \<open>Properties of the controller\<close>

subsection \<open>Assignment\<close>




subsection \<open>Selection\<close>

lemma nuked_idem: "nuked w (nuked w sv) = nuked w sv"
  by (simp add: nuked_def Let_def openPorts_def)

lemma nuked_reads:
  "serverMaxMoney (nuked w sv) = serverMaxMoney sv"
  "requiredHackingLevel (nuked w sv) = requiredHackingLevel sv"
  "hackAnalyzeChance (nuked w sv) = hackAnalyzeChance sv"
  by (simp_all add: nuked_def Let_def)

lemma nuked_server_update: "nuked (w\<lparr> server := f \<rparr>) = nuked w"
  by (rule ext) (simp add: nuked_def Let_def)

lemma eligible_unlocked: "eligible (unlocked w A) s = eligible w s"
  by (simp add: eligible_def unlocked_def nuked_reads)

lemma nuked_unlocked: "nuked (unlocked w A) = nuked w"
  by (simp add: unlocked_def nuked_server_update)

lemma final_unlocked:
  "nuked (unlocked w A) (server (unlocked w A) n) = nuked w (server w n)"
  by (simp add: nuked_unlocked) (simp add: unlocked_def nuked_idem)

lemma unlocked_fields:
  "network (unlocked w A) = network w" "hackingLevel (unlocked w A) = hackingLevel w"
  "serverMaxMoney (server (unlocked w A) n) = serverMaxMoney (server w n)"
  "requiredHackingLevel (server (unlocked w A) n) = requiredHackingLevel (server w n)"
  "hackAnalyzeChance (server (unlocked w A) n) = hackAnalyzeChance (server w n)"
  by (simp_all add: unlocked_def nuked_reads)

lemma unlocked_empty: "unlocked w {} = w"
  by (simp add: unlocked_def)

lemma unlocked_skip: "\<not> eligible w s \<Longrightarrow> unlocked w (insert s A) = unlocked w A"
  by (auto simp: unlocked_def fun_eq_iff intro!: arg_cong[where f="\<lambda>f. w\<lparr>server := f\<rparr>"])

lemma server_autoNuke:
  "server (autoNuke w t) n
     = (if n = t \<and> t \<noteq> ''home'' then nuked w (server w t) else server w n)"
  by (simp add: autoNuke_def)

lemma nuked_autoNuke: "nuked (autoNuke w t) = nuked w"
  by (simp add: autoNuke_def nuked_server_update)

lemma eligible_autoNuke: "eligible (autoNuke w t) n = eligible w n"
  by (simp add: eligible_def server_autoNuke nuked_reads) (simp add: autoNuke_def)

lemma autoNuke_then_update: "(autoNuke w t)\<lparr> server := f \<rparr> = w\<lparr> server := f \<rparr>"
  by (simp add: autoNuke_def)

lemma unlocked_autoNuke:
  assumes "eligible w s" "s \<noteq> ''home''"
  shows "unlocked (autoNuke w s) A = unlocked w (insert s A)"
proof -
  have "(\<lambda>n. if n \<in> A \<and> eligible (autoNuke w s) n
              then nuked (autoNuke w s) (server (autoNuke w s) n)
              else server (autoNuke w s) n)
      = (\<lambda>n. if n \<in> insert s A \<and> eligible w n then nuked w (server w n) else server w n)"
    using assms
    by (auto simp: fun_eq_iff eligible_autoNuke nuked_autoNuke server_autoNuke nuked_idem)
  then show ?thesis
    by (simp add: unlocked_def autoNuke_then_update)
qed

lemma unlocked_twice: "unlocked (unlocked w A) A = unlocked w A"
proof -
  have "(\<lambda>n. if n \<in> A \<and> eligible (unlocked w A) n
              then nuked (unlocked w A) (server (unlocked w A) n)
              else server (unlocked w A) n)
      = server (unlocked w A)"
    by (auto simp: fun_eq_iff eligible_unlocked final_unlocked)
       (simp_all add: unlocked_def)
  then show ?thesis by (simp add: unlocked_def[of "unlocked w A"])
qed

lemma candidateScore_autoNuke: "candidateScore (autoNuke w t) s = candidateScore w s"
  by (auto simp: candidateScore_def Let_def server_autoNuke nuked_reads)

lemma kept_autoNuke: "kept (autoNuke w t) s = kept w s"
  by (simp add: kept_def eligible_autoNuke nuked_autoNuke server_autoNuke nuked_reads nuked_idem)

lemma candidateOf_autoNuke: "candidateOf (autoNuke w t) s = candidateOf w s"
  by (simp add: candidateOf_def candidateScore_autoNuke server_autoNuke nuked_reads)

lemma candidates_char:
  assumes "''home'' \<notin> set ss"
  shows "candidates w ss cand
       = (cand @ map (candidateOf w) (filter (kept w) ss), unlocked w (set ss))"
  using assms
proof (induction ss arbitrary: w cand)
  case Nil
  then show ?case by (simp add: unlocked_empty)
next
  case (Cons s ss)
  then have nh: "s \<noteq> ''home''" and hs: "''home'' \<notin> set ss" by auto
  show ?case
  proof (cases "eligible w s")
    case False
    then show ?thesis
      using Cons.IH[OF hs, of w cand]
      by (simp add: unlocked_skip kept_def) (simp add: eligible_def)
  next
    case True
    let ?w = "autoNuke w s"
    have s': "server ?w s = nuked w (server w s)" using nh by (simp add: server_autoNuke)
    have k: "kept ?w = kept w" by (rule ext) (rule kept_autoNuke)
    have c: "candidateOf ?w = candidateOf w" by (rule ext) (rule candidateOf_autoNuke)
    have ih: "candidates ?w ss cand'
        = (cand' @ map (candidateOf w) (filter (kept w) ss), unlocked w (set (s # ss)))"
      for cand'
      using Cons.IH[OF hs, of ?w cand'] by (simp add: k c unlocked_autoNuke[OF True nh])
    have el: "\<not> requiredHackingLevel (server w s) > hackingLevel w"
      using True by (simp add: eligible_def)
    show ?thesis
    proof (cases "kept w s")
      case True
      then have r: "hasRootAccess (server ?w s)" "\<not> hackAnalyzeChance (server ?w s) \<le> 0"
        by (simp_all add: kept_def s' nuked_reads)
      have "candidateOf w s = \<lparr> host = s, score = candidateScore ?w s,
          chance = hackAnalyzeChance (server ?w s) \<rparr>"
        by (simp add: candidateOf_def candidateScore_autoNuke s' nuked_reads)
      then show ?thesis
        using True el r ih by (simp add: Let_def)
    next
      case False
      then have "\<not> hasRootAccess (server ?w s) \<or> hackAnalyzeChance (server ?w s) \<le> 0"
        using \<open>eligible w s\<close> by (simp add: kept_def s' nuked_reads)
      then show ?thesis
        using False el ih by (auto simp: Let_def)
    qed
  qed
qed

lemma scanLoop_network:
  assumes "network w' = network w"
  shows "scanLoop w' seen stack = scanLoop w seen stack"
  using assms
proof (induction w seen stack rule: scanLoop.induct)
  case (1 w seen)
  then show ?case by simp
next
  case (2 w seen h stack)
  have s: "scan w' h = scan w h" using "2.prems" by (simp add: scan_def)
  show ?case using "2.IH"[OF "2.prems"] by (simp add: s)
qed

lemma scanAll_unlocked: "scanAll (unlocked w A) = scanAll w"
  unfolding scanAll_def by (rule scanLoop_network) (rule unlocked_fields(1))

lemma moneyHosts_unlocked: "moneyHosts (unlocked w A) = moneyHosts w"
  by (simp add: moneyHosts_def scanAll_unlocked unlocked_fields)

lemma home_moneyHosts: "''home'' \<notin> set (moneyHosts w)"
  by (simp add: moneyHosts_def)

lemma kept_unlocked: "kept (unlocked w A) s = kept w s"
  by (simp add: kept_def eligible_unlocked final_unlocked unlocked_fields)

lemma candidateOf_unlocked: "candidateOf (unlocked w A) s = candidateOf w s"
  by (simp add: candidateOf_def candidateScore_def unlocked_fields)

lemma pick_char:
  "pickTargetsAndStrategy w
     = (decide (map (candidateOf w) (filter (kept w) (moneyHosts w))),
        unlocked w (set (moneyHosts w)))"
  using candidates_char[OF home_moneyHosts, where w = w and cand = "[]"]
  by (simp add: pickTargetsAndStrategy_def Let_def moneyHosts_def)

lemma unlocked_settled:
  assumes "\<forall>n \<in> A. autoNuke w n = w" "''home'' \<notin> A"
  shows "unlocked w A = w"
proof -
  have "nuked w (server w n) = server w n" if "n \<in> A" for n
  proof -
    from that assms have "autoNuke w n = w" "n \<noteq> ''home''" by auto
    then show ?thesis using server_autoNuke[of w n n] by simp
  qed
  then have "(\<lambda>n. if n \<in> A \<and> eligible w n then nuked w (server w n) else server w n)
      = server w" by auto
  then show ?thesis by (simp add: unlocked_def)
qed

lemma scanAll_freshWorld: "scanAll freshWorld = [''home'', ''n00dles'']"
  by (simp add: scanAll_def scan_def freshWorld_def)

lemma scanAll_rootedWorld: "scanAll rootedWorld = [''home'', ''n00dles'']"
  by (simp add: scanAll_def scan_def rootedWorld_def)

lemma moneyHosts_freshWorld: "moneyHosts freshWorld = [''n00dles'']"
  by (simp add: moneyHosts_def scanAll_freshWorld) (simp add: freshWorld_def n00dles_def homeServer_def)

lemma moneyHosts_rootedWorld: "moneyHosts rootedWorld = [''n00dles'']"
  by (simp add: moneyHosts_def scanAll_rootedWorld) (simp add: rootedWorld_def n00dles_def homeServer_def)

lemma decide_single:
  assumes "MIN_HACK_CHANCE_PRIMARY \<le> chance c" "0 < score c"
  shows "decide [c] = \<lparr> primary = Some (host c), secondaries = [] \<rparr>"
  using assms by (simp add: decide_def POOL_def Let_def)

lemma n00dles_candidate:
  "candidateOf freshWorld ''n00dles''
     = \<lparr> host = ''n00dles'', score = 1750000 * (9/10) / (1 + 1/10), chance = 9/10 \<rparr>"
  "candidateOf rootedWorld ''n00dles''
     = \<lparr> host = ''n00dles'', score = 1750000 * (9/10) / (1 + 1/10), chance = 9/10 \<rparr>"
  by (simp_all add: candidateOf_def candidateScore_def freshWorld_def rootedWorld_def n00dles_def)

lemma n00dles_kept: "kept freshWorld ''n00dles''" "kept rootedWorld ''n00dles''"
  by (simp_all add: kept_def eligible_def nuked_def openPorts_def freshWorld_def rootedWorld_def
      n00dles_def)

text \<open>Called before the pass, the routine itself applies the unlock to its candidates.\<close>

lemma pick_freshWorld:
  "pickTargetsAndStrategy freshWorld
     = (\<lparr> primary = Some ''n00dles'', secondaries = [] \<rparr>, unlocked freshWorld {''n00dles''})"
  by (simp add: pick_char moneyHosts_freshWorld n00dles_kept n00dles_candidate decide_single
      MIN_HACK_CHANCE_PRIMARY_def)

text \<open>The pass of lines 59 and 60 applies the unlock to every scanned host but \<open>home\<close>.\<close>

lemma foldl_autoNuke:
  "foldl autoNuke w xs
     = w\<lparr> server := (\<lambda>n. if n \<in> set xs \<and> n \<noteq> ''home''
                          then nuked w (server w n) else server w n) \<rparr>"
proof (induction xs arbitrary: w)
  case Nil
  then show ?case by simp
next
  case (Cons x xs)
  have "(\<lambda>n. if n \<in> set xs \<and> n \<noteq> ''home''
              then nuked (autoNuke w x) (server (autoNuke w x) n)
              else server (autoNuke w x) n)
      = (\<lambda>n. if n \<in> set (x # xs) \<and> n \<noteq> ''home''
              then nuked w (server w n) else server w n)"
    by (auto simp: fun_eq_iff nuked_autoNuke server_autoNuke nuked_idem)
  then show ?case
    by (simp only: foldl_Cons Cons.IH autoNuke_then_update)
qed

lemma autoNukeAll_fields:
  "network (autoNukeAll w) = network w"
  "nuked (autoNukeAll w) = nuked w"
  "server (autoNukeAll w) n
     = (if n \<in> set (scanAll w) \<and> n \<noteq> ''home'' then nuked w (server w n) else server w n)"
  by (simp_all add: autoNukeAll_def foldl_autoNuke nuked_server_update)

lemma scanAll_autoNukeAll: "scanAll (autoNukeAll w) = scanAll w"
  unfolding scanAll_def by (rule scanLoop_network) (rule autoNukeAll_fields(1))

lemma settled_autoNukeAll: "settled (autoNukeAll w)"
proof -
  have "autoNuke (autoNukeAll w) n = autoNukeAll w" if "n \<in> set (scanAll w)" for n
  proof (cases "n = ''home''")
    case True
    then show ?thesis by (simp add: autoNuke_def)
  next
    case False
    with that have "nuked (autoNukeAll w) (server (autoNukeAll w) n) = server (autoNukeAll w) n"
      by (simp add: autoNukeAll_fields nuked_idem)
    then have "(server (autoNukeAll w))(n := nuked (autoNukeAll w) (server (autoNukeAll w) n))
        = server (autoNukeAll w)" by simp
    then show ?thesis by (simp add: autoNuke_def)
  qed
  then show ?thesis by (simp add: settled_def scanAll_autoNukeAll)
qed

lemma pick_settled:
  assumes "settled v"
  shows "snd (pickTargetsAndStrategy v) = v"
proof -
  have "\<forall>n \<in> set (moneyHosts v). autoNuke v n = v"
    using assms by (simp add: settled_def moneyHosts_def)
  then have "unlocked v (set (moneyHosts v)) = v"
    by (rule unlocked_settled) (rule home_moneyHosts)
  then show ?thesis by (simp add: pick_char)
qed

lemma pick_again:
  "pickTargetsAndStrategy (snd (pickTargetsAndStrategy u)) = pickTargetsAndStrategy u"
proof -
  let ?u = "unlocked u (set (moneyHosts u))"
  have k: "kept ?u = kept u" by (rule ext) (simp add: kept_unlocked)
  have c: "candidateOf ?u = candidateOf u" by (rule ext) (simp add: candidateOf_unlocked)
  have m: "moneyHosts ?u = moneyHosts u" by (simp add: moneyHosts_unlocked)
  have "pickTargetsAndStrategy ?u = pickTargetsAndStrategy u"
    by (simp add: pick_char[of ?u] k c m) (simp add: pick_char unlocked_twice)
  then show ?thesis by (simp add: pick_char[of u])
qed

lemma autoNukeAll_freshWorld: "autoNukeAll freshWorld = rootedWorld"
proof -
  have "nuked freshWorld n00dles = n00dles\<lparr> hasRootAccess := True \<rparr>"
    by (simp add: nuked_def openPorts_def freshWorld_def n00dles_def)
  then have f: "(\<lambda>n. if n \<in> set [''home'', ''n00dles''] \<and> n \<noteq> ''home''
               then nuked freshWorld (server freshWorld n) else server freshWorld n)
      = (\<lambda>n. if n = ''n00dles'' then n00dles\<lparr> hasRootAccess := True \<rparr> else homeServer)"
    by (auto simp: fun_eq_iff freshWorld_def)
  have "autoNukeAll freshWorld
      = freshWorld\<lparr> server := (\<lambda>n. if n = ''n00dles''
                                     then n00dles\<lparr> hasRootAccess := True \<rparr> else homeServer) \<rparr>"
    by (simp only: autoNukeAll_def foldl_autoNuke scanAll_freshWorld f)
  then show ?thesis by (simp add: freshWorld_def rootedWorld_def)
qed

text \<open>
  Claim C8: two calls of the selection on the identical snapshot of authorized
  targets return the same Strategy, and the call changes no observable state. The
  targets are authorized when the unlock is already applied: every call site runs
  \<open>autoNuke\<close> over all scanned hosts right before the selection (lines 59 to 63). On
  the state which that pass leaves, and on every state in which \<open>autoNuke\<close> changes no
  scanned host, the selection leaves the state as it is, so a second call reads the
  same state and returns the same Strategy. (The routine calls \<open>autoNuke\<close> itself at
  line 230; in such a state the call changes nothing. In any state, a second call
  right after the first returns the same Strategy and the same state as the first.)
\<close>

theorem C8_selection:
  "settled (autoNukeAll w)
   \<and> snd (pickTargetsAndStrategy (autoNukeAll w)) = autoNukeAll w
   \<and> (settled v \<longrightarrow> snd (pickTargetsAndStrategy v) = v
        \<and> pickTargetsAndStrategy (snd (pickTargetsAndStrategy v)) = pickTargetsAndStrategy v)
   \<and> pickTargetsAndStrategy (snd (pickTargetsAndStrategy u)) = pickTargetsAndStrategy u"
  using settled_autoNukeAll[of w] pick_settled[of "autoNukeAll w"] pick_settled[of v]
    pick_again[of v] pick_again[of u]
  by blast

theorem C8_selection_witness:
  "autoNukeAll freshWorld = rootedWorld
   \<and> settled rootedWorld
   \<and> pickTargetsAndStrategy rootedWorld
     = (\<lparr> primary = Some ''n00dles'', secondaries = [] \<rparr>, rootedWorld)
   \<and> pickTargetsAndStrategy (snd (pickTargetsAndStrategy rootedWorld))
     = (\<lparr> primary = Some ''n00dles'', secondaries = [] \<rparr>, rootedWorld)"
proof -
  have f: "fst (pickTargetsAndStrategy rootedWorld)
      = \<lparr> primary = Some ''n00dles'', secondaries = [] \<rparr>"
    by (simp add: pick_char moneyHosts_rootedWorld n00dles_kept n00dles_candidate decide_single
        MIN_HACK_CHANCE_PRIMARY_def)
  from C8_selection[of freshWorld rootedWorld rootedWorld]
  have s: "settled rootedWorld"
    and t: "settled rootedWorld \<longrightarrow> snd (pickTargetsAndStrategy rootedWorld) = rootedWorld
        \<and> pickTargetsAndStrategy (snd (pickTargetsAndStrategy rootedWorld))
          = pickTargetsAndStrategy rootedWorld"
    by (simp_all add: autoNukeAll_freshWorld)
  from s t have "snd (pickTargetsAndStrategy rootedWorld) = rootedWorld" by blast
  with f have "pickTargetsAndStrategy rootedWorld
      = (\<lparr> primary = Some ''n00dles'', secondaries = [] \<rparr>, rootedWorld)"
    by (metis prod.collapse)
  with s show ?thesis by (simp add: autoNukeAll_freshWorld)
qed

end
